theory Spec2Isabelle
  imports Complex_Main
begin

section \<open>FTE baseload engine: numbers, dates and series\<close>

text \<open>
  The engine of \<^verbatim>\<open>model.py\<close> computes on Python floats, on month-aligned
  \<^verbatim>\<open>pandas\<close> timestamps and on \<^verbatim>\<open>pandas\<close> series over a monthly index.

  \<^item> A float is modelled as an exact rational (\<^typ>\<open>rat\<close>): rounding error, infinities
    and NaN are outside the model. The literal \<^verbatim>\<open>1e-9\<close> is \<open>1 / 10 ^ 9\<close>.
  \<^item> A month-start timestamp is the integer \<open>12 * year + (month - 1)\<close>;
    \<^verbatim>\<open>dt + pd.DateOffset(months=k)\<close> is \<open>dt + k\<close> and \<^verbatim>\<open>dt.year\<close> is
    \<open>dt div 12\<close>. The calendar is unbounded (the timestamp library's range limits
    are not modelled).
  \<^item> A series is the list of its \<open>(index, value)\<close> items in index order.
  \<^item> A dict is an association list read with \<^const>\<open>map_of\<close> (the keys of a Python
    dict are unique; of a repeated key the first binding is read).
  \<^item> Python's \<^verbatim>\<open>ZeroDivisionError\<close> on float division is a value of type
    \<open>error\<close>, and so is the failure to build a month start from a month number outside
    \<open>1 .. 12\<close> (the configuration editor keeps the intake window within \<open>1 .. 12\<close>;
    what the timestamp library makes of such a string is outside this repository).
    A fallible function returns \<open>error + 'a\<close>.
\<close>

datatype error = ZeroDivisionError | ValueError

definition eps :: rat where
  "eps = 1 / 10 ^ 9"

definition py_div :: "rat \<Rightarrow> rat \<Rightarrow> error + rat" where
  "py_div a b = (if b = 0 then Inl ZeroDivisionError else Inr (a / b))"

definition Timestamp :: "int \<Rightarrow> int \<Rightarrow> error + int" where
  \<comment> \<open>\<^verbatim>\<open>pd.Timestamp(f"{y}-{m:02d}-01")\<close>\<close>
  "Timestamp y m = (if 1 \<le> m \<and> m \<le> 12 then Inr (12 * y + (m - 1)) else Inl ValueError)"

definition year_of :: "int \<Rightarrow> int" where
  "year_of dt = dt div 12"

type_synonym series = "(int \<times> rat) list"

definition dict_get :: "('k \<times> 'v) list \<Rightarrow> 'k \<Rightarrow> 'v \<Rightarrow> 'v" where
  \<comment> \<open>\<^verbatim>\<open>d.get(k, default)\<close>\<close>
  "dict_get d k dflt = (case map_of d k of Some v \<Rightarrow> v | None \<Rightarrow> dflt)"

definition series_zeros :: "int list \<Rightarrow> series" where
  \<comment> \<open>\<^verbatim>\<open>pd.Series(0.0, index=idx)\<close>\<close>
  "series_zeros idx = map (\<lambda>d. (d, 0)) idx"

definition in_index :: "int \<Rightarrow> series \<Rightarrow> bool" where
  \<comment> \<open>\<^verbatim>\<open>dt in s.index\<close>\<close>
  "in_index dt s = (dt \<in> set (map fst s))"

definition loc :: "series \<Rightarrow> int \<Rightarrow> rat" where
  \<comment> \<open>\<^verbatim>\<open>s.loc[dt]\<close>; every read in the engine is at a label of the index the
      series was built over, so the \<^verbatim>\<open>KeyError\<close> branch is never taken\<close>
  "loc s dt = (case map_of s dt of Some v \<Rightarrow> v | None \<Rightarrow> 0)"

definition loc_add :: "series \<Rightarrow> int \<Rightarrow> rat \<Rightarrow> series" where
  \<comment> \<open>\<^verbatim>\<open>s.loc[dt] += x\<close>\<close>
  "loc_add s dt x = map (\<lambda>(d, v). (d, if d = dt then v + x else v)) s"

definition mask_add :: "series \<Rightarrow> int \<Rightarrow> int \<Rightarrow> rat \<Rightarrow> series" where
  \<comment> \<open>\<^verbatim>\<open>s.loc[(idx >= dt) & (idx < end_dt)] += n\<close>\<close>
  "mask_add s dt end_dt n = map (\<lambda>(d, v). (d, if dt \<le> d \<and> d < end_dt then v + n else v)) s"

definition series_scale :: "series \<Rightarrow> rat \<Rightarrow> series" where
  \<comment> \<open>\<^verbatim>\<open>s * c\<close>\<close>
  "series_scale s c = map (\<lambda>(d, v). (d, v * c)) s"

definition series_add :: "series \<Rightarrow> series \<Rightarrow> series" where
  \<comment> \<open>\<^verbatim>\<open>s.add(t, fill_value=0.0)\<close> for two series over the same index\<close>
  "series_add s t = map (\<lambda>(d, v). (d, v + dict_get t d 0)) s"

fun fold_err :: "('a \<Rightarrow> 's \<Rightarrow> error + 's) \<Rightarrow> 'a list \<Rightarrow> 's \<Rightarrow> error + 's" where
  "fold_err f [] s = Inr s"
| "fold_err f (x # xs) s = (case f x s of Inl e \<Rightarrow> Inl e | Inr s' \<Rightarrow> fold_err f xs s')"

section \<open>Configuration (config.py)\<close>

record StageParams =
  duration_months :: int
  cost_millions :: rat
  fte_research :: rat
  fte_developer :: rat

record Archetype =
  name :: string
  portfolio_share :: rat
  stages :: "(string \<times> StageParams) list"

record ModelConfig =
  total_budget_m :: rat
  overhead_pct :: rat
  start_year :: int
  end_year :: int
  pipeline_stages :: "string list"
  stage_mix :: "(string \<times> rat) list"
  stage_conversion_rates :: "(string \<times> rat) list"
  intake_spread_months :: int
  utilization_rate :: rat
  ramp_months :: int
  archetypes :: "Archetype list"

text \<open>One row of the monthly record table (the dict appended by \<^verbatim>\<open>_run_archetype\<close>).\<close>

record MonthlyRow =
  month :: int
  year :: int
  archetype :: string
  stage :: string
  effective_projects :: rat
  row_fte_research :: rat
  row_fte_developer :: rat
  fte_total :: rat

text \<open>One row of the annual summary table.\<close>

record AnnualRow =
  Year :: int
  Avg_monthly_FTE :: rat
  Min_monthly_FTE :: rat
  Max_monthly_FTE :: rat
  Avg_Research_FTE :: rat
  Avg_Developer_FTE :: rat

text \<open>The dict returned by \<^verbatim>\<open>run\<close> and the \<^verbatim>\<open>ModelResult\<close> of \<^verbatim>\<open>run_model\<close>.\<close>

record RunOutput =
  out_monthly :: "MonthlyRow list"
  out_projects_per_year :: rat

record ModelResult =
  monthly :: "MonthlyRow list"
  annual_summary :: "AnnualRow list"
  steady_state_avg :: rat
  steady_state_min_month :: rat
  steady_state_max_month :: rat
  res_projects_per_year :: rat

section \<open>Cost weighting and budget-to-volume conversion\<close>

text \<open>The private functions of \<^verbatim>\<open>model.py\<close> keep their names without the leading
  underscore.\<close>

definition available_budget :: "ModelConfig \<Rightarrow> rat" where
  "available_budget cfg = total_budget_m cfg * (1 - overhead_pct cfg)"

function expected_cost_from_stage ::
  "Archetype \<Rightarrow> string list \<Rightarrow> (string \<times> rat) list \<Rightarrow> nat \<Rightarrow> rat" where
  "expected_cost_from_stage arch stgs conv_rates start_idx =
     (if start_idx \<ge> length stgs then 0
      else
        (case map_of (stages arch) (stgs ! start_idx) of
           None \<Rightarrow> 0
         | Some sp \<Rightarrow>
             (if start_idx < length stgs - 1 then
                (if dict_get conv_rates (stgs ! start_idx) 0 > 0 then
                   cost_millions sp
                   + dict_get conv_rates (stgs ! start_idx) 0
                     * expected_cost_from_stage arch stgs conv_rates (start_idx + 1)
                 else cost_millions sp)
              else cost_millions sp)))"
  by pat_completeness auto
termination
  by (relation "measure (\<lambda>(arch, stgs, conv_rates, start_idx). length stgs - start_idx)") auto

definition arch_cost :: "ModelConfig \<Rightarrow> Archetype \<Rightarrow> rat" where
  \<comment> \<open>the inner loop of \<^verbatim>\<open>_weighted_cost_per_project\<close>\<close>
  "arch_cost cfg arch =
     foldl (\<lambda>acc (i, sname).
              if dict_get (stage_mix cfg) sname 0 > 0 \<and> map_of (stages arch) sname \<noteq> None
              then acc + dict_get (stage_mix cfg) sname 0
                         * expected_cost_from_stage arch (pipeline_stages cfg)
                             (stage_conversion_rates cfg) i
              else acc)
           0 (enumerate 0 (pipeline_stages cfg))"

definition weighted_cost_per_project :: "ModelConfig \<Rightarrow> rat" where
  "weighted_cost_per_project cfg =
     foldl (\<lambda>total arch. total + portfolio_share arch * arch_cost cfg arch) 0 (archetypes cfg)"

definition projects_per_year :: "ModelConfig \<Rightarrow> error + rat" where
  "projects_per_year cfg =
     (let budget = available_budget cfg;
          wc = weighted_cost_per_project cfg
      in if wc \<le> 0 then Inr 0 else py_div budget wc)"

section \<open>Active stock\<close>

definition active_stock :: "series \<Rightarrow> int \<Rightarrow> int list \<Rightarrow> int \<Rightarrow> series" where
  "active_stock starts duration idx ramp =
     (if duration \<le> 0 then series_zeros idx
      else if ramp \<le> 0 then
        fold (\<lambda>(dt, n) active.
                if n < eps then active
                else mask_add active dt (dt + duration) n)
             starts (series_zeros idx)
      else
        fold (\<lambda>(dt, n) active.
                if n < eps then active
                else fold (\<lambda>m active.
                             if in_index (dt + m) active
                             then loc_add active (dt + m)
                                    (n * min 1 ((of_int m + 1) / of_int ramp))
                             else active)
                          [0 .. duration - 1] active)
             starts (series_zeros idx))"

section \<open>Pipeline runner\<close>

definition direct_starts ::
  "ModelConfig \<Rightarrow> rat \<Rightarrow> string \<Rightarrow> int list \<Rightarrow> error + series" where
  \<comment> \<open>lines 128--137: the start series with the direct intake of every year\<close>
  "direct_starts cfg arch_projects sname idx =
     (let direct_n = arch_projects * dict_get (stage_mix cfg) sname 0 in
      if direct_n > 0 then
        fold_err (\<lambda>y starts.
            fold_err (\<lambda>m starts.
                case Timestamp y m of
                  Inl e \<Rightarrow> Inl e
                | Inr ts \<Rightarrow>
                    Inr (if in_index ts starts
                         then loc_add starts ts
                                (direct_n / of_int (max (intake_spread_months cfg) 1))
                         else starts))
              [1 .. intake_spread_months cfg] starts)
          [start_year cfg .. end_year cfg] (series_zeros idx)
      else Inr (series_zeros idx))"

definition converted_starts ::
  "ModelConfig \<Rightarrow> string list \<Rightarrow> nat \<Rightarrow> series option \<Rightarrow> series \<Rightarrow> series" where
  \<comment> \<open>lines 139--143: the conversion inflow added to the start series\<close>
  "converted_starts cfg stgs i prev_completions starts =
     (case prev_completions of
        None \<Rightarrow> starts
      | Some pc \<Rightarrow>
          if i > 0 then
            (if dict_get (stage_conversion_rates cfg) (stgs ! (i - 1)) 0 > 0
             then series_add starts
                    (series_scale pc (dict_get (stage_conversion_rates cfg) (stgs ! (i - 1)) 0))
             else starts)
          else starts)"

definition completions :: "series \<Rightarrow> int \<Rightarrow> int list \<Rightarrow> series" where
  \<comment> \<open>lines 147--153\<close>
  "completions starts dur idx =
     fold (\<lambda>(dt, n) this_completions.
             if n < eps then this_completions
             else if in_index (dt + dur) this_completions
                  then loc_add this_completions (dt + dur) n
                  else this_completions)
          starts (series_zeros idx)"

definition emit_records ::
  "Archetype \<Rightarrow> string \<Rightarrow> StageParams \<Rightarrow> rat \<Rightarrow> series \<Rightarrow> int list \<Rightarrow> MonthlyRow list" where
  \<comment> \<open>lines 156--169: the rows appended for one stage\<close>
  "emit_records arch sname sp utilization active idx =
     concat (map (\<lambda>dt.
        if loc active dt < eps then []
        else [\<lparr> month = dt,
                year = year_of dt,
                archetype = name arch,
                stage = sname,
                effective_projects = loc active dt,
                row_fte_research = loc active dt * fte_research sp / utilization,
                row_fte_developer = loc active dt * fte_developer sp / utilization,
                fte_total = loc active dt * (fte_research sp + fte_developer sp) / utilization \<rparr>])
       idx)"

definition stage_starts ::
  "ModelConfig \<Rightarrow> rat \<Rightarrow> int list \<Rightarrow> string list \<Rightarrow> nat \<Rightarrow> string \<Rightarrow> series option
     \<Rightarrow> error + series" where
  \<comment> \<open>lines 128--143: direct starts plus conversion inflow\<close>
  "stage_starts cfg arch_projects idx stgs i sname prev_completions =
     (case direct_starts cfg arch_projects sname idx of
        Inl e \<Rightarrow> Inl e
      | Inr starts \<Rightarrow> Inr (converted_starts cfg stgs i prev_completions starts))"

definition stage_body ::
  "ModelConfig \<Rightarrow> Archetype \<Rightarrow> rat \<Rightarrow> int list \<Rightarrow> rat \<Rightarrow> string list \<Rightarrow> nat \<times> string
     \<Rightarrow> series option \<times> MonthlyRow list \<Rightarrow> error + (series option \<times> MonthlyRow list)" where
  \<comment> \<open>one iteration of the loop over \<^verbatim>\<open>enumerate(stages)\<close>; the state is
      \<^verbatim>\<open>prev_completions\<close> and the shared \<^verbatim>\<open>records\<close> list\<close>
  "stage_body cfg arch arch_projects idx utilization stgs =
     (\<lambda>(i, sname) (prev_completions, records).
        case map_of (stages arch) sname of
          None \<Rightarrow> Inr (None, records)
        | Some sp \<Rightarrow>
            (case stage_starts cfg arch_projects idx stgs i sname prev_completions of
               Inl e \<Rightarrow> Inl e
             | Inr starts \<Rightarrow>
                 Inr (Some (completions starts (duration_months sp) idx),
                      records @ emit_records arch sname sp utilization
                                  (active_stock starts (duration_months sp) idx (ramp_months cfg))
                                  idx)))"

definition run_stages ::
  "ModelConfig \<Rightarrow> Archetype \<Rightarrow> rat \<Rightarrow> int list \<Rightarrow> rat \<Rightarrow> string list \<Rightarrow> (nat \<times> string) list
     \<Rightarrow> series option \<times> MonthlyRow list \<Rightarrow> error + (series option \<times> MonthlyRow list)" where
  "run_stages cfg arch arch_projects idx utilization stgs todo st =
     fold_err (stage_body cfg arch arch_projects idx utilization stgs) todo st"

definition run_archetype ::
  "ModelConfig \<Rightarrow> Archetype \<Rightarrow> rat \<Rightarrow> int list \<Rightarrow> rat \<Rightarrow> MonthlyRow list
     \<Rightarrow> error + MonthlyRow list" where
  "run_archetype cfg arch arch_projects idx utilization records =
     (case run_stages cfg arch arch_projects idx utilization (pipeline_stages cfg)
             (enumerate 0 (pipeline_stages cfg)) (None, records) of
        Inl e \<Rightarrow> Inl e
      | Inr (prev_completions, records') \<Rightarrow> Inr records')"

section \<open>Public API\<close>

definition arch_dur :: "ModelConfig \<Rightarrow> Archetype \<Rightarrow> int" where
  "arch_dur cfg a =
     sum_list (map (\<lambda>(sn, sp). duration_months sp)
                 (filter (\<lambda>(sn, sp). sn \<in> set (pipeline_stages cfg)) (stages a)))"

definition tail_months :: "ModelConfig \<Rightarrow> int" where
  "tail_months cfg = foldl (\<lambda>t a. max t (arch_dur cfg a)) 0 (archetypes cfg)"

definition month_index :: "ModelConfig \<Rightarrow> error + int list" where
  \<comment> \<open>lines 188--190: \<^verbatim>\<open>pd.date_range(start_date, end_date, freq="MS")\<close>\<close>
  "month_index cfg =
     (case Timestamp (start_year cfg) 1 of
        Inl e \<Rightarrow> Inl e
      | Inr start_date \<Rightarrow>
          (case Timestamp (end_year cfg) 12 of
             Inl e \<Rightarrow> Inl e
           | Inr end_date \<Rightarrow> Inr [start_date .. end_date + tail_months cfg]))"

definition run :: "ModelConfig \<Rightarrow> error + RunOutput" where
  "run cfg =
     (case projects_per_year cfg of
        Inl e \<Rightarrow> Inl e
      | Inr total_proj \<Rightarrow>
          (case month_index cfg of
             Inl e \<Rightarrow> Inl e
           | Inr idx \<Rightarrow>
               (case fold_err (\<lambda>arch records.
                        run_archetype cfg arch (total_proj * portfolio_share arch) idx
                          (max (utilization_rate cfg) (1 / 100)) records)
                      (archetypes cfg) [] of
                  Inl e \<Rightarrow> Inl e
                | Inr records \<Rightarrow>
                    Inr \<lparr> out_monthly = records, out_projects_per_year = total_proj \<rparr>)))"

section \<open>Aggregation and steady state\<close>

definition py_round1 :: "rat \<Rightarrow> rat" where
  \<comment> \<open>\<^verbatim>\<open>round(x, 1)\<close>: to one decimal, a tie going to the even digit\<close>
  "py_round1 x =
     (let f = \<lfloor>x * 10\<rfloor>; d = x * 10 - of_int f
      in of_int (if d < 1 / 2 then f
                 else if d > 1 / 2 then f + 1
                 else if even f then f else f + 1) / 10)"

definition month_keys :: "MonthlyRow list \<Rightarrow> int list" where
  \<comment> \<open>the group keys of \<^verbatim>\<open>groupby("month")\<close>, sorted\<close>
  "month_keys rows = sort (remdups (map month rows))"

definition monthly_totals :: "(MonthlyRow \<Rightarrow> rat) \<Rightarrow> MonthlyRow list \<Rightarrow> rat list" where
  \<comment> \<open>one column of \<^verbatim>\<open>groupby("month").agg(... "sum")\<close>\<close>
  "monthly_totals col rows =
     map (\<lambda>k. sum_list (map col (filter (\<lambda>r. month r = k) rows))) (month_keys rows)"

definition mean :: "rat list \<Rightarrow> rat" where
  "mean xs = sum_list xs / of_nat (length xs)"

fun list_min :: "rat list \<Rightarrow> rat" where
  "list_min [] = 0"
| "list_min (x # xs) = fold min xs x"

fun list_max :: "rat list \<Rightarrow> rat" where
  "list_max [] = 0"
| "list_max (x # xs) = fold max xs x"

definition zero_row :: "int \<Rightarrow> AnnualRow" where
  "zero_row yr = \<lparr> Year = yr, Avg_monthly_FTE = 0, Min_monthly_FTE = 0, Max_monthly_FTE = 0,
                   Avg_Research_FTE = 0, Avg_Developer_FTE = 0 \<rparr>"

definition year_row :: "int \<Rightarrow> MonthlyRow list \<Rightarrow> AnnualRow" where
  \<comment> \<open>lines 245--258, for the non-empty rows of one year\<close>
  "year_row yr yr_data =
     \<lparr> Year = yr,
       Avg_monthly_FTE = py_round1 (mean (monthly_totals fte_total yr_data)),
       Min_monthly_FTE = py_round1 (list_min (monthly_totals fte_total yr_data)),
       Max_monthly_FTE = py_round1 (list_max (monthly_totals fte_total yr_data)),
       Avg_Research_FTE = py_round1 (mean (monthly_totals row_fte_research yr_data)),
       Avg_Developer_FTE = py_round1 (mean (monthly_totals row_fte_developer yr_data)) \<rparr>"

definition build_annual_summary :: "MonthlyRow list \<Rightarrow> ModelConfig \<Rightarrow> AnnualRow list" where
  "build_annual_summary mrows cfg =
     (if mrows = [] then []
      else map (\<lambda>yr. if filter (\<lambda>r. year r = yr) mrows = [] then zero_row yr
                      else year_row yr (filter (\<lambda>r. year r = yr) mrows))
             [start_year cfg .. end_year cfg])"

definition steady_state :: "MonthlyRow list \<Rightarrow> ModelConfig \<Rightarrow> rat \<times> rat \<times> rat" where
  "steady_state mrows cfg =
     (if mrows = [] then (0, 0, 0)
      else
        (let last_year =
               (if filter (\<lambda>r. year r = end_year cfg) mrows = []
                then filter (\<lambda>r. year r = end_year cfg - 1) mrows
                else filter (\<lambda>r. year r = end_year cfg) mrows)
         in if last_year = [] then (0, 0, 0)
            else (mean (monthly_totals fte_total last_year),
                  list_min (monthly_totals fte_total last_year),
                  list_max (monthly_totals fte_total last_year))))"

definition run_model :: "ModelConfig \<Rightarrow> error + ModelResult" where
  "run_model cfg =
     (case run cfg of
        Inl e \<Rightarrow> Inl e
      | Inr res \<Rightarrow>
          Inr \<lparr> monthly = out_monthly res,
                annual_summary = build_annual_summary (out_monthly res) cfg,
                steady_state_avg = fst (steady_state (out_monthly res) cfg),
                steady_state_min_month = fst (snd (steady_state (out_monthly res) cfg)),
                steady_state_max_month = snd (snd (steady_state (out_monthly res) cfg)),
                res_projects_per_year = out_projects_per_year res \<rparr>)"

section \<open>Example configurations\<close>

text \<open>The two-stage scenario: stages Early and Late, one archetype, a gross budget of 100
  and an intake window of one month in 2026; and a row of its monthly table.\<close>

definition scenario :: ModelConfig where
  "scenario =
     \<lparr> total_budget_m = 100, overhead_pct = 0, start_year = 2026, end_year = 2026,
       pipeline_stages = [''Early'', ''Late''],
       stage_mix = [(''Early'', 2 / 10), (''Late'', 8 / 10)],
       stage_conversion_rates = [(''Early'', 5 / 10)],
       intake_spread_months = 1, utilization_rate = 1, ramp_months = 0,
       archetypes =
         [\<lparr> name = ''A'', portfolio_share = 1,
            stages =
              [(''Early'', \<lparr> duration_months = 6, cost_millions = 5,
                            fte_research = 1, fte_developer = 0 \<rparr>),
               (''Late'', \<lparr> duration_months = 6, cost_millions = 10,
                           fte_research = 0, fte_developer = 1 \<rparr>)] \<rparr>] \<rparr>"

definition scenario_row :: "string \<Rightarrow> rat \<Rightarrow> rat \<Rightarrow> rat \<Rightarrow> int \<Rightarrow> MonthlyRow" where
  "scenario_row sname n r d m =
     \<lparr> month = m, year = 2026, archetype = ''A'', stage = sname, effective_projects = n,
       row_fte_research = r, row_fte_developer = d, fte_total = r + d \<rparr>"

text \<open>A second archetype for the scenario, with one-month stages.\<close>

definition short_arch :: Archetype where
  "short_arch =
     \<lparr> name = ''A'', portfolio_share = 1,
       stages =
         [(''Early'', \<lparr> duration_months = 1, cost_millions = 5,
                       fte_research = 1, fte_developer = 0 \<rparr>),
          (''Late'', \<lparr> duration_months = 1, cost_millions = 10,
                      fte_research = 0, fte_developer = 1 \<rparr>)] \<rparr>"

text \<open>A configuration whose monthly intake stays below the threshold: a net budget of
  \<open>3e-9\<close> at unit cost, spread over six months, with \<open>1e9\<close> research FTE per project;
  and the start series it produces.\<close>

definition faint :: ModelConfig where
  "faint =
     \<lparr> total_budget_m = 3 / 10 ^ 9, overhead_pct = 0, start_year = 2026, end_year = 2026,
       pipeline_stages = [''S''],
       stage_mix = [(''S'', 1)],
       stage_conversion_rates = [],
       intake_spread_months = 6, utilization_rate = 1, ramp_months = 0,
       archetypes =
         [\<lparr> name = ''A'', portfolio_share = 1,
            stages =
              [(''S'', \<lparr> duration_months = 6, cost_millions = 1,
                        fte_research = 10 ^ 9, fte_developer = 0 \<rparr>)] \<rparr>] \<rparr>"

definition faint_starts :: series where
  "faint_starts = map (\<lambda>m. (m, if m \<le> 24317 then 5 / 10 ^ 10 else 0)) [24312 .. 24329]"

section \<open>Rows appended by the pipeline runner\<close>

text \<open>\<open>rows_of arch recs recs'\<close>: the list \<open>recs'\<close> extends \<open>recs\<close> by rows of the
  archetype \<open>arch\<close>, each with at least \<open>eps\<close> effective projects and a stage the
  archetype defines.\<close>

definition rows_of :: "Archetype \<Rightarrow> MonthlyRow list \<Rightarrow> MonthlyRow list \<Rightarrow> bool" where
  "rows_of arch recs recs' \<longleftrightarrow>
     (\<exists>new. recs' = recs @ new \<and>
        (\<forall>r \<in> set new. eps \<le> effective_projects r \<and> archetype r = name arch
                          \<and> map_of (stages arch) (stage r) \<noteq> None))"

section \<open>Budget-to-volume conversion never faults\<close>

lemma arch_cost_no_mix:
  assumes "\<forall>s \<in> set (pipeline_stages cfg). dict_get (stage_mix cfg) s 0 \<le> 0"
  shows "arch_cost cfg arch = 0"
proof -
  have "foldl (\<lambda>acc (i, sname).
              if dict_get (stage_mix cfg) sname 0 > 0 \<and> map_of (stages arch) sname \<noteq> None
              then acc + dict_get (stage_mix cfg) sname 0
                         * expected_cost_from_stage arch (pipeline_stages cfg)
                             (stage_conversion_rates cfg) i
              else acc) a xs = a" if "\<forall>p \<in> set xs. dict_get (stage_mix cfg) (snd p) 0 \<le> 0" for a xs
    using that by (induction xs arbitrary: a) (auto simp: not_less[symmetric])
  moreover have "\<forall>p \<in> set (enumerate 0 (pipeline_stages cfg)). dict_get (stage_mix cfg) (snd p) 0 \<le> 0"
    using assms by (auto simp: in_set_enumerate_eq)
  ultimately show ?thesis unfolding arch_cost_def by blast
qed

lemma weighted_cost_zero_costs:
  assumes "\<forall>a \<in> set (archetypes cfg). arch_cost cfg a = 0"
  shows "weighted_cost_per_project cfg = 0"
proof -
  have "foldl (\<lambda>total arch. total + portfolio_share arch * arch_cost cfg arch) t xs = t"
    if "\<forall>a \<in> set xs. arch_cost cfg a = 0" for t xs
    using that by (induction xs arbitrary: t) auto
  then show ?thesis using assms unfolding weighted_cost_per_project_def by blast
qed

text \<open>
  Claim C8. \<^verbatim>\<open>_projects_per_year\<close> always returns a value, never an error: it is the
  net budget \<open>total_budget_m * (1 - overhead_pct)\<close> divided by the weighted cost per
  project when that cost is positive, and 0 when the cost is 0 or negative. With no
  archetypes, or with every stage mix at most zero, the result is 0; with an overhead of
  1 the net budget is 0 and the result is 0.
\<close>

theorem projects_per_year_budget_over_cost:
  "available_budget cfg = total_budget_m cfg * (1 - overhead_pct cfg) \<and>
   projects_per_year cfg =
     Inr (if weighted_cost_per_project cfg \<le> 0 then 0
          else available_budget cfg / weighted_cost_per_project cfg) \<and>
   (archetypes cfg = [] \<longrightarrow> projects_per_year cfg = Inr 0) \<and>
   ((\<forall>s \<in> set (pipeline_stages cfg). dict_get (stage_mix cfg) s 0 \<le> 0)
      \<longrightarrow> projects_per_year cfg = Inr 0) \<and>
   (overhead_pct cfg = 1 \<longrightarrow> available_budget cfg = 0 \<and> projects_per_year cfg = Inr 0)"
proof -
  have b: "available_budget cfg = total_budget_m cfg * (1 - overhead_pct cfg)"
    by (simp add: available_budget_def)
  have p: "projects_per_year cfg =
     Inr (if weighted_cost_per_project cfg \<le> 0 then 0
          else available_budget cfg / weighted_cost_per_project cfg)"
    by (simp add: projects_per_year_def py_div_def Let_def)
  have e: "archetypes cfg = [] \<Longrightarrow> projects_per_year cfg = Inr 0"
    by (simp add: p weighted_cost_per_project_def)
  have m: "(\<forall>s \<in> set (pipeline_stages cfg). dict_get (stage_mix cfg) s 0 \<le> 0)
      \<Longrightarrow> projects_per_year cfg = Inr 0"
    by (simp add: p weighted_cost_zero_costs arch_cost_no_mix)
  have o: "overhead_pct cfg = 1 \<Longrightarrow> available_budget cfg = 0 \<and> projects_per_year cfg = Inr 0"
    by (simp add: p b)
  from b p e m o show ?thesis by blast
qed

theorem projects_per_year_budget_over_cost_witness:
  "archetypes (scenario\<lparr>overhead_pct := 1, archetypes := [], stage_mix := []\<rparr>) = [] \<and>
   list_all (\<lambda>s. dict_get (stage_mix (scenario\<lparr>overhead_pct := 1, archetypes := [], stage_mix := []\<rparr>)) s 0 \<le> 0)
     (pipeline_stages (scenario\<lparr>overhead_pct := 1, archetypes := [], stage_mix := []\<rparr>)) \<and>
   overhead_pct (scenario\<lparr>overhead_pct := 1, archetypes := [], stage_mix := []\<rparr>) = 1 \<and>
   available_budget (scenario\<lparr>overhead_pct := 1, archetypes := [], stage_mix := []\<rparr>) = 0 \<and>
   projects_per_year (scenario\<lparr>overhead_pct := 1, archetypes := [], stage_mix := []\<rparr>) = Inr 0"
  using projects_per_year_budget_over_cost
          [of "scenario\<lparr>overhead_pct := 1, archetypes := [], stage_mix := []\<rparr>"]
  by (simp add: scenario_def dict_get_def)

section \<open>The scenario, evaluated\<close>

lemma run_scenario:
  "run scenario =
     Inr \<lparr> out_monthly =
             map (scenario_row ''Early'' 2 2 0) [24312 .. 24317]
             @ map (scenario_row ''Late'' 8 0 8) [24312 .. 24317]
             @ map (scenario_row ''Late'' 1 0 1) [24318 .. 24323],
           out_projects_per_year = 10 \<rparr>"
  by code_simp

text \<open>
  Claim C1. For the two-stage scenario configuration the weighted cost per project is
  10 and \<^verbatim>\<open>projects_per_year\<close> is 10; the monthly table of \<^verbatim>\<open>run\<close> holds,
  in this order, Early rows with 2 effective projects for January to June 2026
  (months 24312 to 24317), Late rows with 8 effective projects for January to June 2026,
  and Late rows with 1 effective project for July to December 2026 (months 24318 to
  24323), and no other row.
\<close>

theorem scenario_values:
  "weighted_cost_per_project scenario = 10 \<and>
   projects_per_year scenario = Inr 10 \<and>
   Timestamp 2026 1 = Inr 24312 \<and> Timestamp 2026 6 = Inr 24317 \<and>
   Timestamp 2026 7 = Inr 24318 \<and> Timestamp 2026 12 = Inr 24323 \<and>
   (\<exists>res. run scenario = Inr res \<and> out_projects_per_year res = 10 \<and>
      map (\<lambda>r. (month r, stage r, effective_projects r)) (out_monthly res) =
        map (\<lambda>m. (m, ''Early'', 2)) [24312 .. 24317]
        @ map (\<lambda>m. (m, ''Late'', 8)) [24312 .. 24317]
        @ map (\<lambda>m. (m, ''Late'', 1)) [24318 .. 24323])"
proof -
  have w: "weighted_cost_per_project scenario = 10" by code_simp
  have p: "projects_per_year scenario = Inr 10" by code_simp
  have t: "Timestamp 2026 1 = Inr 24312 \<and> Timestamp 2026 6 = Inr 24317 \<and>
           Timestamp 2026 7 = Inr 24318 \<and> Timestamp 2026 12 = Inr 24323"
    by (simp add: Timestamp_def)
  have r: "\<exists>res. run scenario = Inr res \<and> out_projects_per_year res = 10 \<and>
      map (\<lambda>r. (month r, stage r, effective_projects r)) (out_monthly res) =
        map (\<lambda>m. (m, ''Early'', 2)) [24312 .. 24317]
        @ map (\<lambda>m. (m, ''Late'', 8)) [24312 .. 24317]
        @ map (\<lambda>m. (m, ''Late'', 1)) [24318 .. 24323]"
    by (simp add: run_scenario scenario_row_def comp_def)
  from w p t r show ?thesis by blast
qed

section \<open>Series operations\<close>

lemma map_of_map_val:
  "map_of (map (\<lambda>(d, v). (d, f d v)) s) m = map_option (f m) (map_of s m)"
  by (induction s) auto

lemma index_loc_add [simp]: "map fst (loc_add s d x) = map fst s"
  by (simp add: loc_add_def case_prod_unfold comp_def)

lemma index_mask_add [simp]: "map fst (mask_add s a b n) = map fst s"
  by (simp add: mask_add_def case_prod_unfold comp_def)

lemma index_series_add [simp]: "map fst (series_add s t) = map fst s"
  by (simp add: series_add_def case_prod_unfold comp_def)

lemma index_series_scale [simp]: "map fst (series_scale s c) = map fst s"
  by (simp add: series_scale_def case_prod_unfold comp_def)

lemma index_series_zeros [simp]: "map fst (series_zeros idx) = idx"
  by (simp add: series_zeros_def comp_def)

lemma loc_series_zeros [simp]: "loc (series_zeros idx) m = 0"
  by (induction idx) (auto simp: loc_def series_zeros_def)

lemma in_index_map_of: "in_index m s \<longleftrightarrow> map_of s m \<noteq> None"
  by (simp add: in_index_def map_of_eq_None_iff)

lemma loc_not_in_index: "\<not> in_index m s \<Longrightarrow> loc s m = 0"
  by (simp add: loc_def in_index_map_of)

lemma loc_loc_add:
  "loc (loc_add s d x) m = (if in_index m s \<and> m = d then loc s m + x else loc s m)"
  unfolding loc_def loc_add_def map_of_map_val in_index_map_of
  by (auto split: option.splits)

lemma loc_mask_add:
  "loc (mask_add s a b n) m = (if in_index m s \<and> a \<le> m \<and> m < b then loc s m + n else loc s m)"
  unfolding loc_def mask_add_def map_of_map_val in_index_map_of
  by (auto split: option.splits)

lemma loc_series_scale: "loc (series_scale s c) m = loc s m * c"
  unfolding loc_def series_scale_def map_of_map_val
  by (auto split: option.splits)

lemma loc_series_add:
  "loc (series_add s t) m = (if in_index m s then loc s m + loc t m else 0)"
  unfolding loc_def series_add_def map_of_map_val in_index_map_of dict_get_def
  by (auto split: option.splits)

lemma in_index_loc_add [simp]: "in_index m (loc_add s d x) = in_index m s"
  by (simp add: in_index_def)

lemma in_index_mask_add [simp]: "in_index m (mask_add s a b n) = in_index m s"
  by (simp add: in_index_def)

lemma in_index_series_zeros [simp]: "in_index m (series_zeros idx) = (m \<in> set idx)"
  by (simp add: in_index_def)


lemma loc_fold_noramp:
  "loc (fold (\<lambda>(dt, n) active.
                if n < eps then active
                else mask_add active dt (dt + duration) n) starts a) m
   = loc a m + (if in_index m a
                then (\<Sum>(dt, n)\<leftarrow>starts. if \<not> n < eps \<and> dt \<le> m \<and> m < dt + duration then n else 0)
                else 0)"
proof (induction starts arbitrary: a)
  case Nil
  then show ?case by simp
next
  case (Cons p starts)
  obtain dt n where p: "p = (dt, n)" by (cases p)
  show ?case
    by (simp add: p Cons.IH loc_mask_add)
qed

lemma sum_list_if_filter:
  "(\<Sum>x\<leftarrow>xs. if P x then f x else (0::rat)) = sum_list (map f (filter P xs))"
  by (induction xs) auto

lemma loc_fold_ramp_inner:
  assumes "distinct ks"
  shows "loc (fold (\<lambda>k active.
                 if in_index (dt + k) active
                 then loc_add active (dt + k) (n * min 1 ((of_int k + 1) / of_int ramp))
                 else active) ks a) m
   = loc a m + (if in_index m a \<and> m - dt \<in> set ks
                then n * min 1 ((of_int (m - dt) + 1) / of_int ramp) else 0)"
  using assms
proof (induction ks arbitrary: a)
  case Nil
  then show ?case by simp
next
  case (Cons k ks)
  then have d: "distinct ks" and k: "k \<notin> set ks" by simp_all
  show ?case
    using k by (auto simp: Cons.IH[OF d] loc_loc_add)
qed

lemma in_index_fold_ramp_inner [simp]:
  "in_index m (fold (\<lambda>k active.
                 if in_index (dt + k) active
                 then loc_add active (dt + k) (g k)
                 else active) ks a) = in_index m a"
  by (induction ks arbitrary: a) auto

lemma loc_fold_ramp:
  "loc (fold (\<lambda>(dt, n) active.
                if n < eps then active
                else fold (\<lambda>k active.
                             if in_index (dt + k) active
                             then loc_add active (dt + k)
                                    (n * min 1 ((of_int k + 1) / of_int ramp))
                             else active)
                          [0 .. duration - 1] active) starts a) m
   = loc a m + (if in_index m a
                then (\<Sum>(dt, n)\<leftarrow>starts. if \<not> n < eps \<and> dt \<le> m \<and> m < dt + duration
                        then n * min 1 ((of_int (m - dt) + 1) / of_int ramp) else 0)
                else 0)"
proof (induction starts arbitrary: a)
  case Nil
  then show ?case by simp
next
  case (Cons p starts)
  obtain dt n where p: "p = (dt, n)" by (cases p)
  show ?case
    by (auto simp add: p Cons.IH loc_fold_ramp_inner)
qed

lemma active_stock_noramp:
  assumes "ramp \<le> 0" "1 \<le> duration" "m \<in> set idx"
  shows "loc (active_stock starts duration idx ramp) m =
         (\<Sum>(dt, n)\<leftarrow>starts. if \<not> n < eps \<and> dt \<le> m \<and> m < dt + duration then n else 0)"
  using assms by (simp add: active_stock_def loc_fold_noramp)

lemma active_stock_ramp:
  assumes "0 < ramp" "1 \<le> duration" "m \<in> set idx"
  shows "loc (active_stock starts duration idx ramp) m =
         (\<Sum>(dt, n)\<leftarrow>starts. if \<not> n < eps \<and> dt \<le> m \<and> m < dt + duration
                        then n * min 1 ((of_int (m - dt) + 1) / of_int ramp) else 0)"
  using assms by (simp add: active_stock_def loc_fold_ramp)

text \<open>The active stock is a series over the month index, so the read
  \<^verbatim>\<open>active.loc[dt]\<close> of the emission loop, for \<open>dt\<close> in the index, finds its label.\<close>

lemma active_stock_index: "map fst (active_stock starts duration idx ramp) = idx"
proof -
  have a: "map fst (fold (\<lambda>(dt, n) active.
                if n < eps then active
                else mask_add active dt (dt + duration) n) starts a) = map fst a" for a
    by (induction starts arbitrary: a) (auto simp: case_prod_unfold)
  have i: "map fst (fold (\<lambda>m active.
                             if in_index (dt + m) active
                             then loc_add active (dt + m) (g m)
                             else active) ks a) = map fst a" for dt g ks and a :: series
    by (induction ks arbitrary: a) auto
  have b: "map fst (fold (\<lambda>(dt, n) active.
                if n < eps then active
                else fold (\<lambda>m active.
                             if in_index (dt + m) active
                             then loc_add active (dt + m)
                                    (n * min 1 ((of_int m + 1) / of_int ramp))
                             else active)
                          [0 .. duration - 1] active) starts a) = map fst a" for a
    by (induction starts arbitrary: a) (auto simp: case_prod_unfold i)
  show ?thesis by (simp add: active_stock_def a b)
qed

section \<open>Active stock as a window sum\<close>

text \<open>
  Claim C4. Without ramp (\<open>ramp \<le> 0\<close>) and with a duration of at least one month,
  the active stock at every month \<open>m\<close> of the index is the sum of the start events of
  non-negligible size (at least \<open>eps\<close>) that fall in the trailing window of
  \<open>duration\<close> months ending at \<open>m\<close>: a start of size \<open>n\<close> at month \<open>dt\<close> counts
  for every indexed month in \<open>[dt, dt + duration)\<close>.
\<close>

theorem active_stock_sliding_window:
  assumes "ramp \<le> 0" and "1 \<le> duration" and "m \<in> set idx"
  shows "loc (active_stock starts duration idx ramp) m =
         sum_list (map snd (filter (\<lambda>(dt, n). eps \<le> n \<and> m - duration < dt \<and> dt \<le> m) starts))"
proof -
  have "(\<Sum>(dt, n)\<leftarrow>starts. if \<not> n < eps \<and> dt \<le> m \<and> m < dt + duration then n else 0)
        = sum_list (map snd (filter (\<lambda>(dt, n). \<not> n < eps \<and> dt \<le> m \<and> m < dt + duration) starts))"
    using sum_list_if_filter[of "\<lambda>(dt, n). \<not> n < eps \<and> dt \<le> m \<and> m < dt + duration" snd starts]
    by (simp add: case_prod_unfold)
  moreover have "(\<lambda>(dt, n). \<not> n < eps \<and> dt \<le> m \<and> m < dt + duration)
               = (\<lambda>(dt, n::rat). eps \<le> n \<and> m - duration < dt \<and> dt \<le> m)"
    by (auto simp: fun_eq_iff)
  ultimately show ?thesis using assms by (simp add: active_stock_noramp)
qed


theorem active_stock_sliding_window_witness:
  "(0::int) \<le> 0 \<and> (1::int) \<le> 2 \<and> (2::int) \<in> set [0, 1, 2, 3] \<and>
   loc (active_stock [(0, 2), (1, 3), (2, 1 / 10 ^ 10), (3, 0)] 2 [0, 1, 2, 3] 0) 2 = 3"
  using active_stock_sliding_window
          [of 0 2 2 "[0, 1, 2, 3]" "[(0, 2), (1, 3), (2, 1 / 10 ^ 10), (3, 0)]"]
  by (simp add: eps_def)

lemma sum_list_filter_if:
  "(\<Sum>x\<leftarrow>xs. if P x \<and> Q x then f x else (0::rat))
   = (\<Sum>x\<leftarrow>filter P xs. if Q x then f x else 0)"
  by (induction xs) auto

lemma cohort_contribution:
  assumes single: "filter (\<lambda>(dt, v). \<not> v < eps) starts = [(m0, n)]"
    and r: "0 < r"
    and k: "0 \<le> k" "k < duration"
    and idx: "m0 + k \<in> set idx"
  shows "loc (active_stock starts duration idx r) (m0 + k)
         = n * min 1 ((of_int k + 1) / of_int r)"
proof -
  let ?f = "\<lambda>p::int \<times> rat. snd p * min 1 ((of_int (m0 + k - fst p) + 1) / of_int r)"
  let ?Q = "\<lambda>p::int \<times> rat. fst p \<le> m0 + k \<and> m0 + k < fst p + duration"
  let ?P = "\<lambda>p::int \<times> rat. \<not> snd p < eps"
  have d: "1 \<le> duration" using k by simp
  have "loc (active_stock starts duration idx r) (m0 + k)
        = (\<Sum>p\<leftarrow>starts. if ?P p \<and> ?Q p then ?f p else 0)"
    using active_stock_ramp[OF r d idx, of starts] by (simp add: case_prod_unfold)
  also have "\<dots> = (\<Sum>p\<leftarrow>filter ?P starts. if ?Q p then ?f p else 0)"
    by (rule sum_list_filter_if)
  also have "filter ?P starts = [(m0, n)]"
    using single by (simp add: case_prod_unfold)
  finally show ?thesis using k by simp
qed

text \<open>
  Claim C5. Ramp monotonicity: when the start series holds a single cohort of
  non-negligible size \<open>n\<close> at month \<open>m0\<close>, with \<open>ramp_months = r > 1\<close> and a
  duration of at least \<open>r\<close>, the active stock at the indexed months \<open>m0 + k\<close> is
  strictly increasing over the offsets \<open>0 .. r - 1\<close> and equals \<open>n\<close> at every offset
  from \<open>r - 1\<close> to \<open>duration - 1\<close>.
\<close>

theorem ramp_monotone:
  assumes single: "filter (\<lambda>(dt, v). \<not> v < eps) starts = [(m0, n)]"
    and r: "1 < r"
    and dur: "r \<le> duration"
  shows "(\<forall>j k. 0 \<le> j \<and> j < k \<and> k \<le> r - 1 \<and> m0 + j \<in> set idx \<and> m0 + k \<in> set idx
            \<longrightarrow> loc (active_stock starts duration idx r) (m0 + j)
                < loc (active_stock starts duration idx r) (m0 + k))
       \<and> (\<forall>k. r - 1 \<le> k \<and> k \<le> duration - 1 \<and> m0 + k \<in> set idx
            \<longrightarrow> loc (active_stock starts duration idx r) (m0 + k) = n)"
proof -
  have "(m0, n) \<in> set (filter (\<lambda>(dt, v). \<not> v < eps) starts)"
    using single by simp
  then have "\<not> n < eps" by simp
  then have n: "0 < n" by (simp add: eps_def not_less) 
  have r0: "0 < r" using r by simp
  have c: "loc (active_stock starts duration idx r) (m0 + k)
           = n * min 1 ((of_int k + 1) / of_int r)"
    if "0 \<le> k" "k < duration" "m0 + k \<in> set idx" for k
    using cohort_contribution[OF single r0 that] .
  have up: "n * min 1 ((of_int j + 1) / of_int r) < n * min 1 ((of_int k + 1) / of_int r)"
    if "0 \<le> j" "j < k" "k \<le> r - 1" for j k :: int
  proof -
    have "(of_int j + 1) / (of_int r :: rat) < (of_int k + 1) / of_int r"
      using that r0 by (simp add: divide_strict_right_mono)
    moreover have "(of_int k + 1) / (of_int r :: rat) \<le> 1"
      using that r0 by (simp add: le_divide_eq_1)
    ultimately have "min 1 ((of_int j + 1) / (of_int r :: rat)) < min 1 ((of_int k + 1) / of_int r)"
      by simp
    then show ?thesis using n by simp
  qed
  have flat: "n * min 1 ((of_int k + 1) / of_int r) = n" if "r - 1 \<le> k" for k :: int
  proof -
    have "(of_int r :: rat) \<le> of_int k + 1"
      using that by (metis of_int_1 of_int_add of_int_le_iff diff_le_eq)
    then have "1 \<le> (of_int k + 1) / (of_int r :: rat)"
      using r0 by (simp add: le_divide_eq_1)
    then show ?thesis by simp
  qed
  show ?thesis
  proof (intro conjI allI impI)
    fix j k
    assume a: "0 \<le> j \<and> j < k \<and> k \<le> r - 1 \<and> m0 + j \<in> set idx \<and> m0 + k \<in> set idx"
    then have "j < duration" "k < duration" "0 \<le> k" using dur by auto
    then show "loc (active_stock starts duration idx r) (m0 + j)
                < loc (active_stock starts duration idx r) (m0 + k)"
      using a c up by auto
  next
    fix k
    assume a: "r - 1 \<le> k \<and> k \<le> duration - 1 \<and> m0 + k \<in> set idx"
    then have "0 \<le> k" "k < duration" using r by auto
    then show "loc (active_stock starts duration idx r) (m0 + k) = n"
      using a c flat by auto
  qed
qed


theorem ramp_monotone_witness:
  "filter (\<lambda>(dt, v). \<not> v < eps) ([(0, 6), (1, 0), (2, 0), (3, 0), (4, 0), (5, 0)] :: series) = [(0, 6)] \<and>
   (1::int) < 3 \<and> (3::int) \<le> 4 \<and>
   loc (active_stock [(0, 6), (1, 0), (2, 0), (3, 0), (4, 0), (5, 0)] 4 [0, 1, 2, 3, 4, 5] 3) (0 + 0)
     < loc (active_stock [(0, 6), (1, 0), (2, 0), (3, 0), (4, 0), (5, 0)] 4 [0, 1, 2, 3, 4, 5] 3) (0 + 1) \<and>
   loc (active_stock [(0, 6), (1, 0), (2, 0), (3, 0), (4, 0), (5, 0)] 4 [0, 1, 2, 3, 4, 5] 3) (0 + 1)
     < loc (active_stock [(0, 6), (1, 0), (2, 0), (3, 0), (4, 0), (5, 0)] 4 [0, 1, 2, 3, 4, 5] 3) (0 + 2) \<and>
   loc (active_stock [(0, 6), (1, 0), (2, 0), (3, 0), (4, 0), (5, 0)] 4 [0, 1, 2, 3, 4, 5] 3) (0 + 2) = 6 \<and>
   loc (active_stock [(0, 6), (1, 0), (2, 0), (3, 0), (4, 0), (5, 0)] 4 [0, 1, 2, 3, 4, 5] 3) (0 + 3) = 6"
proof -
  let ?s = "[(0, 6), (1, 0), (2, 0), (3, 0), (4, 0), (5, 0)] :: series"
  have a: "filter (\<lambda>(dt, v). \<not> v < eps) ?s = [(0, 6)]" by (simp add: eps_def)
  have b: "(1::int) < 3" and c: "(3::int) \<le> 4" by simp_all
  note m = ramp_monotone[OF a b c, of "[0, 1, 2, 3, 4, 5]"]
  have "loc (active_stock ?s 4 [0, 1, 2, 3, 4, 5] 3) (0 + 0)
          < loc (active_stock ?s 4 [0, 1, 2, 3, 4, 5] 3) (0 + 1)"
    using m[THEN conjunct1, rule_format, of 0 1] by simp
  moreover have "loc (active_stock ?s 4 [0, 1, 2, 3, 4, 5] 3) (0 + 1)
          < loc (active_stock ?s 4 [0, 1, 2, 3, 4, 5] 3) (0 + 2)"
    using m[THEN conjunct1, rule_format, of 1 2] by simp
  moreover have "loc (active_stock ?s 4 [0, 1, 2, 3, 4, 5] 3) (0 + 2) = 6"
    using m[THEN conjunct2, rule_format, of 2] by simp
  moreover have "loc (active_stock ?s 4 [0, 1, 2, 3, 4, 5] 3) (0 + 3) = 6"
    using m[THEN conjunct2, rule_format, of 3] by simp
  ultimately show ?thesis using a b c by blast
qed

section \<open>Rows, gaps and conversion in the pipeline runner\<close>

lemma fold_err_invariant:
  assumes "fold_err f xs s = Inr s'"
    and "P s"
    and "\<And>x t t'. x \<in> set xs \<Longrightarrow> P t \<Longrightarrow> f x t = Inr t' \<Longrightarrow> P t'"
  shows "P s'"
  using assms
proof (induction xs arbitrary: s)
  case Nil
  then show ?case by simp
next
  case (Cons x xs)
  from Cons.prems(1) obtain t where t: "f x s = Inr t" and r: "fold_err f xs t = Inr s'"
    by (auto split: sum.splits)
  have "P t" using Cons.prems(2,3) t by auto
  then show ?case using Cons.IH[OF r] Cons.prems(3) by auto
qed

lemma fold_err_append:
  "fold_err f (xs @ ys) s =
     (case fold_err f xs s of Inl e \<Rightarrow> Inl e | Inr t \<Rightarrow> fold_err f ys t)"
  by (induction xs arbitrary: s) (auto split: sum.splits)

lemma emit_records_rows:
  assumes "r \<in> set (emit_records arch sname sp utilization active idx)"
  shows "eps \<le> effective_projects r \<and> stage r = sname \<and> archetype r = name arch
         \<and> month r \<in> set idx \<and> effective_projects r = loc active (month r)"
  using assms by (auto simp: emit_records_def not_less split: if_splits)

lemma rows_of_refl: "rows_of arch recs recs"
  by (simp add: rows_of_def)

lemma rows_of_trans:
  assumes "rows_of arch a b" "rows_of arch b c"
  shows "rows_of arch a c"
proof -
  from assms obtain n1 n2 where "b = a @ n1" "c = b @ n2"
    and "\<forall>r \<in> set n1. eps \<le> effective_projects r \<and> archetype r = name arch
                          \<and> map_of (stages arch) (stage r) \<noteq> None"
    and "\<forall>r \<in> set n2. eps \<le> effective_projects r \<and> archetype r = name arch
                          \<and> map_of (stages arch) (stage r) \<noteq> None"
    unfolding rows_of_def by blast
  then show ?thesis unfolding rows_of_def by (intro exI[of _ "n1 @ n2"]) auto
qed

lemma stage_body_rows:
  assumes "stage_body cfg arch ap idx u stgs p (prev, recs) = Inr (prev', recs')"
  shows "rows_of arch recs recs'"
proof -
  obtain i sname where p: "p = (i, sname)" by (cases p)
  show ?thesis
  proof (cases "map_of (stages arch) sname")
    case None
    then show ?thesis using assms by (simp add: stage_body_def p rows_of_refl)
  next
    case (Some sp)
    with assms obtain starts where
      "recs' = recs @ emit_records arch sname sp u
                        (active_stock starts (duration_months sp) idx (ramp_months cfg)) idx"
      by (auto simp: stage_body_def p split: sum.splits)
    then show ?thesis
      unfolding rows_of_def using Some
      by (intro exI[of _ "emit_records arch sname sp u
                        (active_stock starts (duration_months sp) idx (ramp_months cfg)) idx"])
         (auto dest: emit_records_rows)
  qed
qed

lemma run_stages_rows:
  assumes "run_stages cfg arch ap idx u stgs todo (prev, recs) = Inr (prev', recs')"
  shows "rows_of arch recs recs'"
proof -
  have "rows_of arch recs (snd (prev', recs'))"
  proof (rule fold_err_invariant[where P = "\<lambda>st. rows_of arch recs (snd st)"])
    show "fold_err (stage_body cfg arch ap idx u stgs) todo (prev, recs) = Inr (prev', recs')"
      using assms by (simp add: run_stages_def)
    show "rows_of arch recs (snd (prev, recs))" by (simp add: rows_of_refl)
  next
    fix x t t'
    assume "rows_of arch recs (snd t)" and "stage_body cfg arch ap idx u stgs x t = Inr t'"
    then show "rows_of arch recs (snd t')"
      using stage_body_rows[of cfg arch ap idx u stgs x "fst t" "snd t" "fst t'" "snd t'"]
        rows_of_trans by auto
  qed
  then show ?thesis by simp
qed

lemma run_archetype_rows:
  assumes "run_archetype cfg arch ap idx u recs = Inr recs'"
  shows "rows_of arch recs recs'"
  using assms run_stages_rows unfolding run_archetype_def
  by (auto split: sum.splits prod.splits)

lemma run_rows_eps:
  assumes "run cfg = Inr out"
  shows "\<forall>r \<in> set (out_monthly out). eps \<le> effective_projects r"
proof -
  from assms obtain total_proj idx recs where
    f: "fold_err (\<lambda>arch records.
                        run_archetype cfg arch (total_proj * portfolio_share arch) idx
                          (max (utilization_rate cfg) (1 / 100)) records)
                      (archetypes cfg) [] = Inr recs"
    and o: "out = \<lparr> out_monthly = recs, out_projects_per_year = total_proj \<rparr>"
    by (auto simp: run_def split: sum.splits)
  have "\<forall>r \<in> set recs. eps \<le> effective_projects r"
  proof (rule fold_err_invariant[OF f, where P = "\<lambda>rs. \<forall>r \<in> set rs. eps \<le> effective_projects r"])
    show "\<forall>r\<in>set []. eps \<le> effective_projects r" by simp
  next
    fix x t t'
    assume "\<forall>r\<in>set t. eps \<le> effective_projects r"
      and "run_archetype cfg x (total_proj * portfolio_share x) idx
             (max (utilization_rate cfg) (1 / 100)) t = Inr t'"
    then have "\<forall>r\<in>set t. eps \<le> effective_projects r" and "rows_of x t t'"
      using run_archetype_rows by blast+
    then show "\<forall>r\<in>set t'. eps \<le> effective_projects r"
      unfolding rows_of_def by auto
  qed
  then show ?thesis by (simp add: o)
qed

text \<open>
  Claim C10. Every row of the monthly table returned by \<^verbatim>\<open>run\<close> and by
  \<^verbatim>\<open>run_model\<close> has \<open>effective_projects\<close> of at least \<open>1e-9\<close>, hence strictly
  positive: no zero, negative or sub-epsilon row is ever emitted.
\<close>

theorem monthly_rows_above_epsilon:
  "(run cfg = Inr out \<longrightarrow>
      (\<forall>r \<in> set (out_monthly out). 1 / 10 ^ 9 \<le> effective_projects r \<and> 0 < effective_projects r))
   \<and> (run_model cfg = Inr res \<longrightarrow>
      (\<forall>r \<in> set (monthly res). 1 / 10 ^ 9 \<le> effective_projects r \<and> 0 < effective_projects r))"
proof -
  have pos: "0 < x" if "eps \<le> x" for x :: rat
    using that by (simp add: eps_def)
  have a: "\<forall>r \<in> set (out_monthly out). 1 / 10 ^ 9 \<le> effective_projects r \<and> 0 < effective_projects r"
    if "run cfg = Inr out" for out
    using run_rows_eps[OF that] pos by (auto simp: eps_def)
  have b: "\<forall>r \<in> set (monthly res). 1 / 10 ^ 9 \<le> effective_projects r \<and> 0 < effective_projects r"
    if "run_model cfg = Inr res"
  proof -
    from that obtain out where "run cfg = Inr out" "monthly res = out_monthly out"
      by (auto simp: run_model_def split: sum.splits)
    then show ?thesis using a by simp
  qed
  from a b show ?thesis by blast
qed

theorem monthly_rows_above_epsilon_witness:
  "run scenario =
     Inr \<lparr> out_monthly =
             map (scenario_row ''Early'' 2 2 0) [24312 .. 24317]
             @ map (scenario_row ''Late'' 8 0 8) [24312 .. 24317]
             @ map (scenario_row ''Late'' 1 0 1) [24318 .. 24323],
           out_projects_per_year = 10 \<rparr>
   \<and> list_all (\<lambda>r. 1 / 10 ^ 9 \<le> effective_projects r \<and> 0 < effective_projects r)
       (map (scenario_row ''Early'' 2 2 0) [24312 .. 24317]
        @ map (scenario_row ''Late'' 8 0 8) [24312 .. 24317]
        @ map (scenario_row ''Late'' 1 0 1) [24318 .. 24323])"
  using monthly_rows_above_epsilon[of scenario
          "\<lparr> out_monthly =
             map (scenario_row ''Early'' 2 2 0) [24312 .. 24317]
             @ map (scenario_row ''Late'' 8 0 8) [24312 .. 24317]
             @ map (scenario_row ''Late'' 1 0 1) [24318 .. 24323],
           out_projects_per_year = 10 \<rparr>"] run_scenario
  by (simp add: list_all_iff)


lemma enumerate_split:
  assumes "i < length xs"
  shows "enumerate n xs =
           enumerate n (take i xs) @ (n + i, xs ! i) # enumerate (n + Suc i) (drop (Suc i) xs)"
proof -
  have "enumerate n xs = enumerate n (take i xs @ xs ! i # drop (Suc i) xs)"
    using assms by (simp add: id_take_nth_drop[symmetric])
  also have "\<dots> = enumerate n (take i xs) @ enumerate (n + i) (xs ! i # drop (Suc i) xs)"
    using assms by (simp add: enumerate_append_eq min_def)
  finally show ?thesis by simp
qed

lemma stage_body_undefined:
  assumes "map_of (stages arch) sname = None"
  shows "stage_body cfg arch ap idx u stgs (i, sname) (prev, recs) = Inr (None, recs)"
  using assms by (simp add: stage_body_def)

text \<open>
  Claim C7. Severed conversion chain: when the archetype has no parameters for the
  stage at position \<open>i\<close>, the loop body leaves the records unchanged and resets
  \<^verbatim>\<open>prev_completions\<close> to \<^verbatim>\<open>None\<close>, whatever it was; so the stages after the gap are
  run from the state \<open>(None, records)\<close> and receive nothing from the completions of the
  stages before the gap; and no row that \<^verbatim>\<open>_run_archetype\<close> appends carries that stage.
\<close>

theorem severed_chain:
  assumes i: "i < length (pipeline_stages cfg)"
    and gap: "map_of (stages arch) (pipeline_stages cfg ! i) = None"
  shows "stage_body cfg arch ap idx u (pipeline_stages cfg) (i, pipeline_stages cfg ! i) (prev, recs)
           = Inr (None, recs)
       \<and> run_stages cfg arch ap idx u (pipeline_stages cfg)
             (enumerate 0 (pipeline_stages cfg)) (None, recs)
           = (case run_stages cfg arch ap idx u (pipeline_stages cfg)
                    (enumerate 0 (take i (pipeline_stages cfg))) (None, recs) of
                Inl e \<Rightarrow> Inl e
              | Inr (before, recs1) \<Rightarrow>
                  run_stages cfg arch ap idx u (pipeline_stages cfg)
                    (enumerate (Suc i) (drop (Suc i) (pipeline_stages cfg))) (None, recs1))
       \<and> (\<forall>recs'. run_archetype cfg arch ap idx u recs = Inr recs' \<longrightarrow>
             (\<exists>new. recs' = recs @ new \<and> (\<forall>r \<in> set new. stage r \<noteq> pipeline_stages cfg ! i)))"
proof (intro conjI allI impI)
  show "stage_body cfg arch ap idx u (pipeline_stages cfg) (i, pipeline_stages cfg ! i) (prev, recs)
           = Inr (None, recs)"
    using gap by (rule stage_body_undefined)
next
  let ?stgs = "pipeline_stages cfg"
  have "run_stages cfg arch ap idx u ?stgs (enumerate 0 ?stgs) (None, recs)
        = (case run_stages cfg arch ap idx u ?stgs (enumerate 0 (take i ?stgs)) (None, recs) of
             Inl e \<Rightarrow> Inl e
           | Inr st \<Rightarrow>
               run_stages cfg arch ap idx u ?stgs
                 ((i, ?stgs ! i) # enumerate (Suc i) (drop (Suc i) ?stgs)) st)"
    unfolding run_stages_def
    by (subst enumerate_split[OF i, of 0]) (simp add: fold_err_append)
  also have "\<dots> = (case run_stages cfg arch ap idx u ?stgs (enumerate 0 (take i ?stgs)) (None, recs) of
             Inl e \<Rightarrow> Inl e
           | Inr (before, recs1) \<Rightarrow>
               run_stages cfg arch ap idx u ?stgs
                 (enumerate (Suc i) (drop (Suc i) ?stgs)) (None, recs1))"
    by (auto simp: run_stages_def stage_body_undefined[OF gap] split: sum.splits prod.splits)
  finally show "run_stages cfg arch ap idx u ?stgs (enumerate 0 ?stgs) (None, recs)
        = (case run_stages cfg arch ap idx u ?stgs (enumerate 0 (take i ?stgs)) (None, recs) of
             Inl e \<Rightarrow> Inl e
           | Inr (before, recs1) \<Rightarrow>
               run_stages cfg arch ap idx u ?stgs
                 (enumerate (Suc i) (drop (Suc i) ?stgs)) (None, recs1))" .
next
  fix recs'
  assume "run_archetype cfg arch ap idx u recs = Inr recs'"
  then have "rows_of arch recs recs'" by (rule run_archetype_rows)
  then show "\<exists>new. recs' = recs @ new \<and> (\<forall>r \<in> set new. stage r \<noteq> pipeline_stages cfg ! i)"
    unfolding rows_of_def using gap by fastforce
qed

theorem severed_chain_witness:
  "(1::nat) < length (pipeline_stages (scenario\<lparr>pipeline_stages := [''Early'', ''Mid'', ''Late'']\<rparr>))
   \<and> map_of (stages (hd (archetypes scenario)))
        (pipeline_stages (scenario\<lparr>pipeline_stages := [''Early'', ''Mid'', ''Late'']\<rparr>) ! 1) = None
   \<and> stage_body (scenario\<lparr>pipeline_stages := [''Early'', ''Mid'', ''Late'']\<rparr>)
        (hd (archetypes scenario)) 10 [24312, 24313] 1 [''Early'', ''Mid'', ''Late'']
        (1, ''Mid'') (Some [(24312, 0), (24313, 2)], []) = Inr (None, [])"
proof -
  let ?cfg = "scenario\<lparr>pipeline_stages := [''Early'', ''Mid'', ''Late'']\<rparr>"
  have a: "1 < length (pipeline_stages ?cfg)" by (simp add: scenario_def)
  have b: "map_of (stages (hd (archetypes scenario))) (pipeline_stages ?cfg ! 1) = None"
    by (simp add: scenario_def)
  show ?thesis
    using severed_chain[OF a b, of 10 "[24312, 24313]" 1 "Some [(24312, 0), (24313, 2)]" "[]"] a b
    by (simp add: scenario_def)
qed


lemma direct_starts_index:
  assumes "direct_starts cfg ap sname idx = Inr s"
  shows "map fst s = idx"
proof (cases "ap * dict_get (stage_mix cfg) sname 0 > 0")
  case False
  then show ?thesis using assms by (auto simp: direct_starts_def Let_def)
next
  case True
  let ?n = "ap * dict_get (stage_mix cfg) sname 0 / of_int (max (intake_spread_months cfg) 1)"
  let ?inner = "\<lambda>y. fold_err (\<lambda>m starts.
                case Timestamp y m of
                  Inl e \<Rightarrow> Inl e
                | Inr ts \<Rightarrow>
                    Inr (if in_index ts starts then loc_add starts ts ?n else starts))
              [1 .. intake_spread_months cfg]"
  have f: "fold_err ?inner [start_year cfg .. end_year cfg] (series_zeros idx) = Inr s"
    using assms True by (simp add: direct_starts_def Let_def)
  show ?thesis
  proof (rule fold_err_invariant[OF f, where P = "\<lambda>t. map fst t = idx"])
    show "map fst (series_zeros idx) = idx" by simp
  next
    fix y t t'
    assume t: "map fst t = idx" and i: "?inner y t = Inr t'"
    show "map fst t' = idx"
    proof (rule fold_err_invariant[OF i, where P = "\<lambda>t. map fst t = idx"])
      show "map fst t = idx" by (rule t)
    next
      fix m and v v' :: series
      assume "map fst v = idx"
        and "(case Timestamp y m of
                  Inl e \<Rightarrow> Inl e
                | Inr ts \<Rightarrow>
                    Inr (if in_index ts v then loc_add v ts ?n else v)) = Inr v'"
      then show "map fst v' = idx" by (auto split: sum.splits if_splits)
    qed
  qed
qed

lemma completions_index [simp]: "map fst (completions starts dur idx) = idx"
proof -
  have "map fst (fold (\<lambda>(dt, n) this_completions.
             if n < eps then this_completions
             else if in_index (dt + dur) this_completions
                  then loc_add this_completions (dt + dur) n
                  else this_completions) starts a) = map fst a" for a
    by (induction starts arbitrary: a) (auto simp: case_prod_unfold)
  then show ?thesis by (simp add: completions_def)
qed

lemma loc_fold_completions:
  "loc (fold (\<lambda>(dt, n) this_completions.
             if n < eps then this_completions
             else if in_index (dt + dur) this_completions
                  then loc_add this_completions (dt + dur) n
                  else this_completions) starts a) m
   = loc a m + (if in_index m a
                then (\<Sum>(dt, n)\<leftarrow>starts. if \<not> n < eps \<and> dt + dur = m then n else 0)
                else 0)"
proof (induction starts arbitrary: a)
  case Nil
  then show ?case by simp
next
  case (Cons p starts)
  obtain dt n where p: "p = (dt, n)" by (cases p)
  show ?case
    by (auto simp add: p Cons.IH loc_loc_add)
qed

lemma loc_completions:
  assumes "m \<in> set idx"
  shows "loc (completions starts dur idx) m
         = sum_list (map snd (filter (\<lambda>(dt, n). eps \<le> n \<and> dt + dur = m) starts))"
proof -
  have "loc (completions starts dur idx) m
        = (\<Sum>(dt, n)\<leftarrow>starts. if \<not> n < eps \<and> dt + dur = m then n else 0)"
    using assms by (simp add: completions_def loc_fold_completions)
  also have "\<dots> = (\<Sum>p\<leftarrow>starts. if \<not> snd p < eps \<and> fst p + dur = m then snd p else 0)"
    by (simp add: case_prod_unfold)
  also have "\<dots> = sum_list (map snd (filter (\<lambda>p. \<not> snd p < eps \<and> fst p + dur = m) starts))"
    by (rule sum_list_if_filter)
  finally show ?thesis by (simp add: case_prod_unfold not_less)
qed

lemma loc_converted_starts:
  assumes "in_index m starts" and "0 < i"
  shows "loc (converted_starts cfg stgs i (Some pc) starts) m
         = loc starts m + max 0 (dict_get (stage_conversion_rates cfg) (stgs ! (i - 1)) 0) * loc pc m"
  using assms by (simp add: converted_starts_def loc_series_add loc_series_scale max_def not_less)


lemma run_archetype_two_stages:
  assumes stgs: "pipeline_stages cfg = [s1, s2]"
    and a1: "map_of (stages arch) s1 = Some sp1"
    and a2: "map_of (stages arch) s2 = Some sp2"
    and ok: "run_archetype cfg arch ap idx u recs = Inr recs'"
  shows "\<exists>starts1 direct2.
      direct_starts cfg ap s1 idx = Inr starts1 \<and>
      direct_starts cfg ap s2 idx = Inr direct2 \<and>
      recs' = recs
        @ emit_records arch s1 sp1 u
            (active_stock starts1 (duration_months sp1) idx (ramp_months cfg)) idx
        @ emit_records arch s2 sp2 u
            (active_stock
               (converted_starts cfg [s1, s2] 1
                  (Some (completions starts1 (duration_months sp1) idx)) direct2)
               (duration_months sp2) idx (ramp_months cfg)) idx"
  using ok unfolding run_archetype_def run_stages_def stgs
  by (auto simp: stage_body_def stage_starts_def a1 a2 converted_starts_def
           split: sum.splits prod.splits)

text \<open>
  Claim C6. Conversion conservation: in a two-stage pipeline whose first stage has a
  conversion rate \<open>c \<ge> 0\<close>, for an archetype that defines both stages, the start
  series of stage 2 is its direct intake plus \<open>c\<close> times the completions of stage 1, at
  every month of the index; and the completions of stage 1 at month \<open>m\<close> are the
  non-negligible stage-1 starts placed exactly \<open>duration_months\<close> of stage 1 earlier
  (the completion series is indexed by the month index, so a completion landing outside
  it is dropped).
\<close>

theorem conversion_conservation:
  assumes stgs: "pipeline_stages cfg = [s1, s2]"
    and a1: "map_of (stages arch) s1 = Some sp1"
    and a2: "map_of (stages arch) s2 = Some sp2"
    and c: "0 \<le> dict_get (stage_conversion_rates cfg) s1 0"
    and ok: "run_archetype cfg arch ap idx u recs = Inr recs'"
  shows "\<exists>starts1 direct2 starts2.
      direct_starts cfg ap s1 idx = Inr starts1 \<and>
      direct_starts cfg ap s2 idx = Inr direct2 \<and>
      recs' = recs
        @ emit_records arch s1 sp1 u
            (active_stock starts1 (duration_months sp1) idx (ramp_months cfg)) idx
        @ emit_records arch s2 sp2 u
            (active_stock starts2 (duration_months sp2) idx (ramp_months cfg)) idx \<and>
      map fst starts2 = idx \<and>
      (\<forall>m \<in> set idx.
         loc starts2 m
           = loc direct2 m
             + dict_get (stage_conversion_rates cfg) s1 0
               * loc (completions starts1 (duration_months sp1) idx) m \<and>
         loc (completions starts1 (duration_months sp1) idx) m
           = sum_list (map snd (filter (\<lambda>(dt, n). eps \<le> n \<and> dt + duration_months sp1 = m)
                                  starts1)))"
proof -
  from run_archetype_two_stages[OF stgs a1 a2 ok] obtain starts1 direct2 where
    d1: "direct_starts cfg ap s1 idx = Inr starts1" and
    d2: "direct_starts cfg ap s2 idx = Inr direct2" and
    r: "recs' = recs
        @ emit_records arch s1 sp1 u
            (active_stock starts1 (duration_months sp1) idx (ramp_months cfg)) idx
        @ emit_records arch s2 sp2 u
            (active_stock
               (converted_starts cfg [s1, s2] 1
                  (Some (completions starts1 (duration_months sp1) idx)) direct2)
               (duration_months sp2) idx (ramp_months cfg)) idx"
    by blast
  let ?comp = "completions starts1 (duration_months sp1) idx"
  let ?starts2 = "converted_starts cfg [s1, s2] 1 (Some ?comp) direct2"
  have i2: "map fst direct2 = idx" using d2 by (rule direct_starts_index)
  have ix: "map fst ?starts2 = idx"
    using i2 by (simp add: converted_starts_def)
  have v: "loc ?starts2 m
           = loc direct2 m + dict_get (stage_conversion_rates cfg) s1 0 * loc ?comp m"
    if "m \<in> set idx" for m
  proof -
    have "in_index m direct2" using that i2 by (simp add: in_index_def)
    then show ?thesis
      using loc_converted_starts[of m direct2 1 cfg "[s1, s2]" ?comp] c by (simp add: max_def)
  qed
  show ?thesis
    using d1 d2 r ix v loc_completions[of _ idx starts1 "duration_months sp1"]
    by (intro exI[of _ starts1] exI[of _ direct2] exI[of _ ?starts2]) simp
qed


theorem conversion_conservation_witness:
  "pipeline_stages scenario = [''Early'', ''Late''] \<and>
   map_of (stages short_arch) ''Early''
     = Some \<lparr> duration_months = 1, cost_millions = 5, fte_research = 1, fte_developer = 0 \<rparr> \<and>
   map_of (stages short_arch) ''Late''
     = Some \<lparr> duration_months = 1, cost_millions = 10, fte_research = 0, fte_developer = 1 \<rparr> \<and>
   0 \<le> dict_get (stage_conversion_rates scenario) ''Early'' 0 \<and>
   run_archetype scenario short_arch 10 [24312, 24313, 24314] 1 []
     = Inr [scenario_row ''Early'' 2 2 0 24312, scenario_row ''Late'' 8 0 8 24312,
            scenario_row ''Late'' 1 0 1 24313] \<and>
   (\<exists>starts1 direct2 starts2.
      direct_starts scenario 10 ''Early'' [24312, 24313, 24314] = Inr starts1 \<and>
      direct_starts scenario 10 ''Late'' [24312, 24313, 24314] = Inr direct2 \<and>
      map fst starts2 = [24312, 24313, 24314] \<and>
      loc starts2 24313
        = loc direct2 24313
          + dict_get (stage_conversion_rates scenario) ''Early'' 0
            * loc (completions starts1 1 [24312, 24313, 24314]) 24313 \<and>
      loc (completions starts1 1 [24312, 24313, 24314]) 24313
        = sum_list (map snd (filter (\<lambda>(dt, n). eps \<le> n \<and> dt + 1 = 24313) starts1)))"
proof -
  have s: "pipeline_stages scenario = [''Early'', ''Late'']" by (simp add: scenario_def)
  have a1: "map_of (stages short_arch) ''Early''
     = Some \<lparr> duration_months = 1, cost_millions = 5, fte_research = 1, fte_developer = 0 \<rparr>"
    by (simp add: short_arch_def)
  have a2: "map_of (stages short_arch) ''Late''
     = Some \<lparr> duration_months = 1, cost_millions = 10, fte_research = 0, fte_developer = 1 \<rparr>"
    by (simp add: short_arch_def)
  have c: "0 \<le> dict_get (stage_conversion_rates scenario) ''Early'' 0"
    by (simp add: scenario_def dict_get_def)
  have ok: "run_archetype scenario short_arch 10 [24312, 24313, 24314] 1 []
     = Inr [scenario_row ''Early'' 2 2 0 24312, scenario_row ''Late'' 8 0 8 24312,
            scenario_row ''Late'' 1 0 1 24313]"
    by code_simp
  let ?sp1 = "\<lparr> duration_months = 1, cost_millions = 5, fte_research = 1, fte_developer = 0 \<rparr>"
  from conversion_conservation[OF s a1 a2 c ok] obtain starts1 direct2 starts2 where
    d1: "direct_starts scenario 10 ''Early'' [24312, 24313, 24314] = Inr starts1" and
    d2: "direct_starts scenario 10 ''Late'' [24312, 24313, 24314] = Inr direct2" and
    ix: "map fst starts2 = [24312, 24313, 24314]" and
    v: "\<forall>m \<in> set [24312, 24313, 24314].
         loc starts2 m
           = loc direct2 m
             + dict_get (stage_conversion_rates scenario) ''Early'' 0
               * loc (completions starts1 (duration_months ?sp1) [24312, 24313, 24314]) m \<and>
         loc (completions starts1 (duration_months ?sp1) [24312, 24313, 24314]) m
           = sum_list (map snd (filter (\<lambda>(dt, n). eps \<le> n \<and> dt + duration_months ?sp1 = m)
                                  starts1))"
    apply (elim exE conjE)
    subgoal premises p for a b c
      using p(1)[of a b c] p(2-) by simp
    done
  from v have "loc starts2 24313
           = loc direct2 24313
             + dict_get (stage_conversion_rates scenario) ''Early'' 0
               * loc (completions starts1 1 [24312, 24313, 24314]) 24313 \<and>
         loc (completions starts1 1 [24312, 24313, 24314]) 24313
           = sum_list (map snd (filter (\<lambda>(dt, n). eps \<le> n \<and> dt + 1 = 24313) starts1))"
    by simp
  with d1 d2 ix have "\<exists>starts1 direct2 starts2.
      direct_starts scenario 10 ''Early'' [24312, 24313, 24314] = Inr starts1 \<and>
      direct_starts scenario 10 ''Late'' [24312, 24313, 24314] = Inr direct2 \<and>
      map fst starts2 = [24312, 24313, 24314] \<and>
      loc starts2 24313
        = loc direct2 24313
          + dict_get (stage_conversion_rates scenario) ''Early'' 0
            * loc (completions starts1 1 [24312, 24313, 24314]) 24313 \<and>
      loc (completions starts1 1 [24312, 24313, 24314]) 24313
        = sum_list (map snd (filter (\<lambda>(dt, n). eps \<le> n \<and> dt + 1 = 24313) starts1))"
    by (intro exI[of _ starts1] exI[of _ direct2] exI[of _ starts2] conjI) simp_all
  with s a1 a2 c ok show ?thesis by blast
qed

section \<open>Annual summary\<close>

lemma list_min_Min: "xs \<noteq> [] \<Longrightarrow> list_min xs = Min (set xs)"
proof (cases xs)
  case Nil
  assume "xs \<noteq> []"
  with Nil show ?thesis by simp
next
  case (Cons a l)
  have "list_min (a # l) = fold min l a" by simp
  also have "\<dots> = Min (set (a # l))" by (rule Min.set_eq_fold[symmetric])
  finally show ?thesis using Cons by simp
qed

lemma list_max_Max: "xs \<noteq> [] \<Longrightarrow> list_max xs = Max (set xs)"
proof (cases xs)
  case Nil
  assume "xs \<noteq> []"
  with Nil show ?thesis by simp
next
  case (Cons a l)
  have "list_max (a # l) = fold max l a" by simp
  also have "\<dots> = Max (set (a # l))" by (rule Max.set_eq_fold[symmetric])
  finally show ?thesis using Cons by simp
qed

lemma month_keys_set [simp]: "set (month_keys rows) = month ` set rows"
  by (simp add: month_keys_def)

lemma month_keys_distinct [simp]: "distinct (month_keys rows)"
  by (simp add: month_keys_def)

lemma month_keys_empty [simp]: "month_keys rows = [] \<longleftrightarrow> rows = []"
proof -
  have "(month_keys rows = []) = (set (month_keys rows) = {})" by (simp only: set_empty)
  also have "\<dots> = (rows = [])" by simp
  finally show ?thesis .
qed

lemma monthly_totals_mean:
  "mean (monthly_totals col rows)
   = (\<Sum>m \<in> month ` set rows. sum_list (map col (filter (\<lambda>r. month r = m) rows)))
     / of_nat (card (month ` set rows))"
proof -
  have "sum_list (monthly_totals col rows)
        = (\<Sum>m \<in> set (month_keys rows). sum_list (map col (filter (\<lambda>r. month r = m) rows)))"
    unfolding monthly_totals_def by (simp add: sum_list_distinct_conv_sum_set)
  moreover have "length (monthly_totals col rows) = card (set (month_keys rows))"
    unfolding monthly_totals_def by (simp add: distinct_card del: month_keys_set)
  ultimately show ?thesis by (simp add: mean_def)
qed

lemma monthly_totals_set:
  "set (monthly_totals col rows)
   = (\<lambda>m. sum_list (map col (filter (\<lambda>r. month r = m) rows))) ` month ` set rows"
  by (simp add: monthly_totals_def)

lemma monthly_totals_empty [simp]: "monthly_totals col rows = [] \<longleftrightarrow> rows = []"
  by (simp add: monthly_totals_def)

lemma filter_year_month:
  "filter (\<lambda>r. month r = m) (filter (\<lambda>r. year r = yr) rows)
   = filter (\<lambda>r. year r = yr \<and> month r = m) rows"
  by (induction rows) auto

text \<open>
  Claim C3, as the code has it. With an empty monthly table the annual summary is empty
  (the guard at the top of \<^verbatim>\<open>_build_annual_summary\<close>). With a non-empty monthly table
  it has exactly one row for each calendar year of \<open>[start_year, end_year]\<close>, in that
  order; a year without monthly rows yields the all-zero row, and a year with rows
  reports, each rounded to one decimal, the mean, the minimum and the maximum over that
  year's months of the per-month sum of \<open>fte_total\<close>, and the means of the per-month
  sums of the research and developer FTE.
\<close>

theorem annual_summary_rows:
  "build_annual_summary [] cfg = [] \<and>
   (mrows \<noteq> [] \<longrightarrow>
      map Year (build_annual_summary mrows cfg) = [start_year cfg .. end_year cfg] \<and>
      build_annual_summary mrows cfg =
        map (\<lambda>yr.
               if \<forall>r \<in> set mrows. year r \<noteq> yr then zero_row yr
               else
                 \<lparr> Year = yr,
                   Avg_monthly_FTE =
                     py_round1
                       ((\<Sum>m \<in> month ` {r \<in> set mrows. year r = yr}.
                           sum_list (map fte_total
                             (filter (\<lambda>r. year r = yr \<and> month r = m) mrows)))
                        / of_nat (card (month ` {r \<in> set mrows. year r = yr}))),
                   Min_monthly_FTE =
                     py_round1
                       (Min ((\<lambda>m. sum_list (map fte_total
                                     (filter (\<lambda>r. year r = yr \<and> month r = m) mrows)))
                             ` month ` {r \<in> set mrows. year r = yr})),
                   Max_monthly_FTE =
                     py_round1
                       (Max ((\<lambda>m. sum_list (map fte_total
                                     (filter (\<lambda>r. year r = yr \<and> month r = m) mrows)))
                             ` month ` {r \<in> set mrows. year r = yr})),
                   Avg_Research_FTE =
                     py_round1
                       ((\<Sum>m \<in> month ` {r \<in> set mrows. year r = yr}.
                           sum_list (map row_fte_research
                             (filter (\<lambda>r. year r = yr \<and> month r = m) mrows)))
                        / of_nat (card (month ` {r \<in> set mrows. year r = yr}))),
                   Avg_Developer_FTE =
                     py_round1
                       ((\<Sum>m \<in> month ` {r \<in> set mrows. year r = yr}.
                           sum_list (map row_fte_developer
                             (filter (\<lambda>r. year r = yr \<and> month r = m) mrows)))
                        / of_nat (card (month ` {r \<in> set mrows. year r = yr}))) \<rparr>)
            [start_year cfg .. end_year cfg])"
proof (intro conjI impI)
  show "build_annual_summary [] cfg = []" by (simp add: build_annual_summary_def)
next
  assume ne: "mrows \<noteq> []"
  have "Year (if filter (\<lambda>r. year r = yr) mrows = [] then zero_row yr
              else year_row yr (filter (\<lambda>r. year r = yr) mrows)) = yr" for yr
    by (simp add: zero_row_def year_row_def)
  then show "map Year (build_annual_summary mrows cfg) = [start_year cfg .. end_year cfg]"
    using ne by (simp add: build_annual_summary_def comp_def)
next
  assume ne: "mrows \<noteq> []"
  have e: "filter (\<lambda>r. year r = yr) mrows = [] \<longleftrightarrow> (\<forall>r \<in> set mrows. year r \<noteq> yr)" for yr
    by (simp add: filter_empty_conv)
  have s: "set (filter (\<lambda>r. year r = yr) mrows) = {r \<in> set mrows. year r = yr}" for yr
    by simp
  have y: "year_row yr (filter (\<lambda>r. year r = yr) mrows) =
                 \<lparr> Year = yr,
                   Avg_monthly_FTE =
                     py_round1
                       ((\<Sum>m \<in> month ` {r \<in> set mrows. year r = yr}.
                           sum_list (map fte_total
                             (filter (\<lambda>r. year r = yr \<and> month r = m) mrows)))
                        / of_nat (card (month ` {r \<in> set mrows. year r = yr}))),
                   Min_monthly_FTE =
                     py_round1
                       (Min ((\<lambda>m. sum_list (map fte_total
                                     (filter (\<lambda>r. year r = yr \<and> month r = m) mrows)))
                             ` month ` {r \<in> set mrows. year r = yr})),
                   Max_monthly_FTE =
                     py_round1
                       (Max ((\<lambda>m. sum_list (map fte_total
                                     (filter (\<lambda>r. year r = yr \<and> month r = m) mrows)))
                             ` month ` {r \<in> set mrows. year r = yr})),
                   Avg_Research_FTE =
                     py_round1
                       ((\<Sum>m \<in> month ` {r \<in> set mrows. year r = yr}.
                           sum_list (map row_fte_research
                             (filter (\<lambda>r. year r = yr \<and> month r = m) mrows)))
                        / of_nat (card (month ` {r \<in> set mrows. year r = yr}))),
                   Avg_Developer_FTE =
                     py_round1
                       ((\<Sum>m \<in> month ` {r \<in> set mrows. year r = yr}.
                           sum_list (map row_fte_developer
                             (filter (\<lambda>r. year r = yr \<and> month r = m) mrows)))
                        / of_nat (card (month ` {r \<in> set mrows. year r = yr}))) \<rparr>"
    if "filter (\<lambda>r. year r = yr) mrows \<noteq> []" for yr
    unfolding year_row_def
    using that
    by (simp only: monthly_totals_mean list_min_Min list_max_Max monthly_totals_empty
          monthly_totals_set filter_year_month s simp_thms)
  show "build_annual_summary mrows cfg = map (\<lambda>yr.
               if \<forall>r \<in> set mrows. year r \<noteq> yr then zero_row yr
               else
                 \<lparr> Year = yr,
                   Avg_monthly_FTE =
                     py_round1
                       ((\<Sum>m \<in> month ` {r \<in> set mrows. year r = yr}.
                           sum_list (map fte_total
                             (filter (\<lambda>r. year r = yr \<and> month r = m) mrows)))
                        / of_nat (card (month ` {r \<in> set mrows. year r = yr}))),
                   Min_monthly_FTE =
                     py_round1
                       (Min ((\<lambda>m. sum_list (map fte_total
                                     (filter (\<lambda>r. year r = yr \<and> month r = m) mrows)))
                             ` month ` {r \<in> set mrows. year r = yr})),
                   Max_monthly_FTE =
                     py_round1
                       (Max ((\<lambda>m. sum_list (map fte_total
                                     (filter (\<lambda>r. year r = yr \<and> month r = m) mrows)))
                             ` month ` {r \<in> set mrows. year r = yr})),
                   Avg_Research_FTE =
                     py_round1
                       ((\<Sum>m \<in> month ` {r \<in> set mrows. year r = yr}.
                           sum_list (map row_fte_research
                             (filter (\<lambda>r. year r = yr \<and> month r = m) mrows)))
                        / of_nat (card (month ` {r \<in> set mrows. year r = yr}))),
                   Avg_Developer_FTE =
                     py_round1
                       ((\<Sum>m \<in> month ` {r \<in> set mrows. year r = yr}.
                           sum_list (map row_fte_developer
                             (filter (\<lambda>r. year r = yr \<and> month r = m) mrows)))
                        / of_nat (card (month ` {r \<in> set mrows. year r = yr}))) \<rparr>)
            [start_year cfg .. end_year cfg]"
    unfolding build_annual_summary_def using ne
    by (simp add: e[symmetric] y cong: if_cong)
qed


theorem annual_summary_rows_witness:
  "[scenario_row ''Early'' 2 2 0 24312, scenario_row ''Late'' 8 0 8 24312,
    scenario_row ''Late'' 1 0 1 24318] \<noteq> [] \<and>
   map Year (build_annual_summary
       [scenario_row ''Early'' 2 2 0 24312, scenario_row ''Late'' 8 0 8 24312,
        scenario_row ''Late'' 1 0 1 24318] (scenario\<lparr>end_year := 2027\<rparr>)) = [2026, 2027] \<and>
   build_annual_summary
       [scenario_row ''Early'' 2 2 0 24312, scenario_row ''Late'' 8 0 8 24312,
        scenario_row ''Late'' 1 0 1 24318] (scenario\<lparr>end_year := 2027\<rparr>)
     = [\<lparr> Year = 2026, Avg_monthly_FTE = 11 / 2, Min_monthly_FTE = 1, Max_monthly_FTE = 10,
          Avg_Research_FTE = 1, Avg_Developer_FTE = 9 / 2 \<rparr>,
        zero_row 2027]"
proof -
  let ?rows = "[scenario_row ''Early'' 2 2 0 24312, scenario_row ''Late'' 8 0 8 24312,
                scenario_row ''Late'' 1 0 1 24318]"
  let ?cfg = "scenario\<lparr>end_year := 2027\<rparr>"
  have ne: "?rows \<noteq> []" by simp
  have u: "[start_year ?cfg .. end_year ?cfg] = [2026, 2027]"
    by (simp add: scenario_def upto.simps)
  have y: "map Year (build_annual_summary ?rows ?cfg) = [2026, 2027]"
    using annual_summary_rows[of ?cfg ?rows, THEN conjunct2, rule_format, OF ne, THEN conjunct1]
    by (simp only: u)
  have v: "build_annual_summary ?rows ?cfg
     = [\<lparr> Year = 2026, Avg_monthly_FTE = 11 / 2, Min_monthly_FTE = 1, Max_monthly_FTE = 10,
          Avg_Research_FTE = 1, Avg_Developer_FTE = 9 / 2 \<rparr>,
        zero_row 2027]"
    by code_simp
  from ne y v show ?thesis by blast
qed

text \<open>
  Claim C3 as stated fails for a configuration without archetypes: the monthly table is
  empty and the annual summary has no row, although the year range is \<open>[2026]\<close>.
\<close>

theorem annual_summary_empty_counterexample:
  "run_model (scenario\<lparr>archetypes := []\<rparr>)
     = Inr \<lparr> monthly = [], annual_summary = [], steady_state_avg = 0,
             steady_state_min_month = 0, steady_state_max_month = 0,
             res_projects_per_year = 0 \<rparr> \<and>
   [start_year (scenario\<lparr>archetypes := []\<rparr>) .. end_year (scenario\<lparr>archetypes := []\<rparr>)] = [2026] \<and>
   map Year (build_annual_summary [] (scenario\<lparr>archetypes := []\<rparr>)) \<noteq> [2026]"
proof -
  have a: "run_model (scenario\<lparr>archetypes := []\<rparr>)
     = Inr \<lparr> monthly = [], annual_summary = [], steady_state_avg = 0,
             steady_state_min_month = 0, steady_state_max_month = 0,
             res_projects_per_year = 0 \<rparr>"
    by code_simp
  have b: "[start_year (scenario\<lparr>archetypes := []\<rparr>) .. end_year (scenario\<lparr>archetypes := []\<rparr>)] = [2026]"
    by (simp add: scenario_def upto.simps)
  have c: "map Year (build_annual_summary [] (scenario\<lparr>archetypes := []\<rparr>)) \<noteq> [2026]"
    by (simp add: build_annual_summary_def)
  from a b c show ?thesis by blast
qed

section \<open>Where the threshold is applied\<close>

lemma fold_skip_eps:
  "fold (\<lambda>(dt, n) a. if n < eps then a else g dt n a) (filter (\<lambda>(dt, n). \<not> n < eps) xs) a
   = fold (\<lambda>(dt, n) a. if n < eps then a else g dt n a) xs a"
  by (induction xs arbitrary: a) auto

lemma active_stock_filter:
  "active_stock starts dur idx ramp
   = active_stock (filter (\<lambda>(dt, n). \<not> n < eps) starts) dur idx ramp"
  unfolding active_stock_def by (simp add: fold_skip_eps)

lemma completions_filter:
  "completions starts dur idx = completions (filter (\<lambda>(dt, n). \<not> n < eps) starts) dur idx"
  unfolding completions_def by (simp add: fold_skip_eps)

text \<open>
  Claim C2, as the code has it. Values below \<open>eps\<close> are suppressed before aggregation:
  a start event below \<open>eps\<close> adds nothing to the active stock nor to the completions
  (both are unchanged when such events are removed from the start series), a month whose
  active stock is below \<open>eps\<close> emits no monthly row, and the annual summary and the
  steady state of \<^verbatim>\<open>run_model\<close> are computed from the emitted monthly rows, all of
  which are at least \<open>eps\<close>.
\<close>

theorem epsilon_suppression:
  "active_stock starts dur idx ramp
     = active_stock (filter (\<lambda>(dt, n). \<not> n < eps) starts) dur idx ramp \<and>
   completions starts dur idx
     = completions (filter (\<lambda>(dt, n). \<not> n < eps) starts) dur idx \<and>
   (loc active m < eps \<longrightarrow>
      (\<forall>r \<in> set (emit_records arch sname sp u active idx). month r \<noteq> m)) \<and>
   (run_model cfg = Inr res \<longrightarrow>
      annual_summary res = build_annual_summary (monthly res) cfg \<and>
      (steady_state_avg res, steady_state_min_month res, steady_state_max_month res)
        = steady_state (monthly res) cfg \<and>
      (\<forall>r \<in> set (monthly res). eps \<le> effective_projects r))"
proof (intro conjI impI)
  show "active_stock starts dur idx ramp
     = active_stock (filter (\<lambda>(dt, n). \<not> n < eps) starts) dur idx ramp"
    by (rule active_stock_filter)
  show "completions starts dur idx
     = completions (filter (\<lambda>(dt, n). \<not> n < eps) starts) dur idx"
    by (rule completions_filter)
next
  assume "loc active m < eps"
  show "\<forall>r \<in> set (emit_records arch sname sp u active idx). month r \<noteq> m"
  proof
    fix r
    assume "r \<in> set (emit_records arch sname sp u active idx)"
    from emit_records_rows[OF this] have "eps \<le> loc active (month r)" by simp
    with \<open>loc active m < eps\<close> show "month r \<noteq> m" by auto
  qed
next
  assume r: "run_model cfg = Inr res"
  then obtain out where o: "run cfg = Inr out" and
    m: "res = \<lparr> monthly = out_monthly out,
                annual_summary = build_annual_summary (out_monthly out) cfg,
                steady_state_avg = fst (steady_state (out_monthly out) cfg),
                steady_state_min_month = fst (snd (steady_state (out_monthly out) cfg)),
                steady_state_max_month = snd (snd (steady_state (out_monthly out) cfg)),
                res_projects_per_year = out_projects_per_year out \<rparr>"
    by (auto simp: run_model_def split: sum.splits)
  show "annual_summary res = build_annual_summary (monthly res) cfg" by (simp add: m)
  show "(steady_state_avg res, steady_state_min_month res, steady_state_max_month res)
        = steady_state (monthly res) cfg" by (simp add: m)
  show "\<forall>r \<in> set (monthly res). eps \<le> effective_projects r"
    using run_rows_eps[OF o] by (simp add: m)
qed

lemma run_model_faint:
  "run_model faint
     = Inr \<lparr> monthly = [], annual_summary = [], steady_state_avg = 0,
             steady_state_min_month = 0, steady_state_max_month = 0,
             res_projects_per_year = 3 / 10 ^ 9 \<rparr>"
  by code_simp

text \<open>
  Claim C2 as stated fails on the configuration \<open>faint\<close>: its six monthly starts of
  \<open>5e-10\<close> sum to \<open>3e-9\<close> in the window ending in June 2026, which is above the
  threshold and stands for 3 research FTE, yet each start is skipped before the
  summation, the active stock of June 2026 is 0, and the monthly and annual tables are
  empty.
\<close>

theorem epsilon_suppression_counterexample:
  "projects_per_year faint = Inr (3 / 10 ^ 9) \<and>
   month_index faint = Inr [24312 .. 24329] \<and>
   direct_starts faint (3 / 10 ^ 9) ''S'' [24312 .. 24329] = Inr faint_starts \<and>
   sum_list (map snd (filter (\<lambda>(dt, n). 24317 - 6 < dt \<and> dt \<le> 24317) faint_starts)) = 3 / 10 ^ 9 \<and>
   eps \<le> 3 / 10 ^ 9 \<and>
   loc (active_stock faint_starts 6 [24312 .. 24329] 0) 24317 = 0 \<and>
   run_model faint
     = Inr \<lparr> monthly = [], annual_summary = [], steady_state_avg = 0,
             steady_state_min_month = 0, steady_state_max_month = 0,
             res_projects_per_year = 3 / 10 ^ 9 \<rparr>"
proof -
  have a: "projects_per_year faint = Inr (3 / 10 ^ 9)" by code_simp
  have b: "month_index faint = Inr [24312 .. 24329]" by code_simp
  have c: "direct_starts faint (3 / 10 ^ 9) ''S'' [24312 .. 24329] = Inr faint_starts"
    by code_simp
  have d: "sum_list (map snd (filter (\<lambda>(dt, n). 24317 - 6 < dt \<and> dt \<le> 24317) faint_starts))
           = 3 / 10 ^ 9" by code_simp
  have e: "eps \<le> 3 / 10 ^ 9" by (simp add: eps_def)
  have f: "loc (active_stock faint_starts 6 [24312 .. 24329] 0) 24317 = 0" by code_simp
  from a b c d e f run_model_faint show ?thesis by blast
qed

theorem epsilon_suppression_witness:
  "loc [(24312, 5 / 10 ^ 10)] 24312 < eps \<and>
   list_all (\<lambda>r. month r \<noteq> 24312)
     (emit_records short_arch ''Early''
        \<lparr> duration_months = 1, cost_millions = 5, fte_research = 1, fte_developer = 0 \<rparr>
        1 [(24312, 5 / 10 ^ 10)] [24312]) \<and>
   run_model faint
     = Inr \<lparr> monthly = [], annual_summary = [], steady_state_avg = 0,
             steady_state_min_month = 0, steady_state_max_month = 0,
             res_projects_per_year = 3 / 10 ^ 9 \<rparr> \<and>
   build_annual_summary [] faint = []"
proof -
  let ?sp = "\<lparr> duration_months = 1, cost_millions = 5, fte_research = 1, fte_developer = 0 \<rparr>"
  let ?res = "\<lparr> monthly = [], annual_summary = [], steady_state_avg = 0,
             steady_state_min_month = 0, steady_state_max_month = 0,
             res_projects_per_year = 3 / 10 ^ 9 \<rparr>"
  note t = epsilon_suppression[of "[]" 1 "[24312]" 0 "[(24312, 5 / 10 ^ 10)]" 24312
             short_arch "''Early''" ?sp 1 faint ?res]
  have l: "loc [(24312, 5 / 10 ^ 10)] 24312 < eps" by (simp add: loc_def eps_def)
  have "\<forall>r \<in> set (emit_records short_arch ''Early'' ?sp 1 [(24312, 5 / 10 ^ 10)] [24312]).
          month r \<noteq> 24312"
    using t[THEN conjunct2, THEN conjunct2, THEN conjunct1, rule_format, OF l] by blast
  then have e: "list_all (\<lambda>r. month r \<noteq> 24312)
     (emit_records short_arch ''Early'' ?sp 1 [(24312, 5 / 10 ^ 10)] [24312])"
    by (simp add: list_all_iff)
  have "annual_summary ?res = build_annual_summary (monthly ?res) faint"
    using t[THEN conjunct2, THEN conjunct2, THEN conjunct2, rule_format, OF run_model_faint]
    by blast
  then have b: "build_annual_summary [] faint = []" by simp
  from l e run_model_faint b show ?thesis by blast
qed

section \<open>The records accumulator\<close>

text \<open>The list \<^verbatim>\<open>records\<close> is the one object the pipeline runner mutates. What a call of
  \<^verbatim>\<open>_run_archetype\<close> appends to it does not depend on the rows it already holds.\<close>

lemma stage_body_acc:
  "stage_body cfg arch ap idx u stgs p (prev, recs)
   = (case stage_body cfg arch ap idx u stgs p (prev, []) of
        Inl e \<Rightarrow> Inl e
      | Inr (prev', new) \<Rightarrow> Inr (prev', recs @ new))"
  by (cases p) (auto simp: stage_body_def split: option.splits sum.splits)

lemma run_stages_acc:
  "run_stages cfg arch ap idx u stgs todo (prev, recs)
   = (case run_stages cfg arch ap idx u stgs todo (prev, []) of
        Inl e \<Rightarrow> Inl e
      | Inr (prev', new) \<Rightarrow> Inr (prev', recs @ new))"
proof (induction todo arbitrary: prev recs)
  case Nil
  then show ?case by (simp add: run_stages_def)
next
  case (Cons p todo)
  show ?case
  proof (cases "stage_body cfg arch ap idx u stgs p (prev, [])")
    case (Inl e)
    then show ?thesis
      using stage_body_acc[of cfg arch ap idx u stgs p prev recs]
      by (simp add: run_stages_def)
  next
    case (Inr st)
    obtain prev1 new1 where st: "st = (prev1, new1)" by (cases st)
    have a: "stage_body cfg arch ap idx u stgs p (prev, recs) = Inr (prev1, recs @ new1)"
      using stage_body_acc[of cfg arch ap idx u stgs p prev recs] Inr st by simp
    have l: "run_stages cfg arch ap idx u stgs (p # todo) (prev, recs)
             = run_stages cfg arch ap idx u stgs todo (prev1, recs @ new1)"
      using a by (simp add: run_stages_def)
    have r: "run_stages cfg arch ap idx u stgs (p # todo) (prev, [])
             = run_stages cfg arch ap idx u stgs todo (prev1, new1)"
      using Inr st by (simp add: run_stages_def)
    have i1: "run_stages cfg arch ap idx u stgs todo (prev1, recs @ new1)
              = (case run_stages cfg arch ap idx u stgs todo (prev1, []) of
                   Inl e \<Rightarrow> Inl e
                 | Inr (prev', new) \<Rightarrow> Inr (prev', (recs @ new1) @ new))"
      by (rule Cons.IH)
    have i2: "run_stages cfg arch ap idx u stgs todo (prev1, new1)
              = (case run_stages cfg arch ap idx u stgs todo (prev1, []) of
                   Inl e \<Rightarrow> Inl e
                 | Inr (prev', new) \<Rightarrow> Inr (prev', new1 @ new))"
      by (rule Cons.IH)
    show ?thesis
      unfolding l r i1 i2 by (auto split: sum.splits)
  qed
qed

lemma run_archetype_acc:
  "run_archetype cfg arch ap idx u recs
   = (case run_archetype cfg arch ap idx u [] of
        Inl e \<Rightarrow> Inl e
      | Inr new \<Rightarrow> Inr (recs @ new))"
  unfolding run_archetype_def
  by (subst run_stages_acc) (auto split: sum.splits)

end
